theory Spec2Isabelle
  imports Main "HOL-Library.Char_ord" "HOL-Library.List_Lexorder"
begin

section \<open>Strings and lexical paths (Go \<open>strings\<close> and \<open>path/filepath\<close> on Unix)\<close>

text \<open>
  A Go string is a byte sequence, here a \<open>string\<close> (a list of \<open>char\<close>). Go compares
  strings bytewise and lexicographically, which is the order of \<open>List_Lexorder\<close> over
  \<open>Char_ord\<close>.
\<close>

definition strings_HasPrefix :: "string \<Rightarrow> string \<Rightarrow> bool" where
  "strings_HasPrefix s pre = (take (length pre) s = pre)"

text \<open>\<open>strings.Split(s, "/")\<close>: the pieces between separators, empty pieces kept.\<close>

fun split_slash :: "string \<Rightarrow> string list" where
  "split_slash [] = [[]]"
| "split_slash (c # cs) =
     (if c = CHR ''/'' then [] # split_slash cs
      else (case split_slash cs of
              [] \<Rightarrow> [[c]]
            | w # ws \<Rightarrow> (c # w) # ws))"

text \<open>\<open>strings.Join(elems, "/")\<close>.\<close>

fun join_slash :: "string list \<Rightarrow> string" where
  "join_slash [] = []"
| "join_slash [x] = x"
| "join_slash (x # y # ys) = x @ CHR ''/'' # join_slash (y # ys)"

definition filepath_IsAbs :: "string \<Rightarrow> bool" where
  "filepath_IsAbs p = strings_HasPrefix p ''/''"

text \<open>
  \<open>filepath.Clean\<close> works on the elements of the path only: empty elements and \<open>.\<close>
  are dropped, an inner \<open>..\<close> cancels the element before it, a \<open>..\<close> at the start of
  a rooted path is dropped, and one at the start of a relative path is kept.
\<close>

fun clean_elems :: "bool \<Rightarrow> string list \<Rightarrow> string list \<Rightarrow> string list" where
  "clean_elems rooted out [] = out"
| "clean_elems rooted out (c # cs) =
     (if c = [] \<or> c = ''.'' then clean_elems rooted out cs
      else if c = ''..'' then
        (if out \<noteq> [] \<and> last out \<noteq> ''..'' then clean_elems rooted (butlast out) cs
         else if rooted then clean_elems rooted out cs
         else clean_elems rooted (out @ [''..'']) cs)
      else clean_elems rooted (out @ [c]) cs)"

definition filepath_Clean :: "string \<Rightarrow> string" where
  "filepath_Clean p =
     (if p = [] then ''.''
      else let rooted = filepath_IsAbs p;
               out = clean_elems rooted [] (split_slash p)
           in if rooted then CHR ''/'' # join_slash out
              else if out = [] then ''.'' else join_slash out)"

text \<open>\<open>filepath.Join\<close>: leading empty elements are ignored, the rest is joined and cleaned.\<close>

fun filepath_Join :: "string list \<Rightarrow> string" where
  "filepath_Join [] = []"
| "filepath_Join (e # es) =
     (if e = [] then filepath_Join es else filepath_Clean (join_slash (e # es)))"

text \<open>\<open>filepath.Dir\<close>: everything up to and including the last separator, cleaned.\<close>

fun upto_last_slash :: "string \<Rightarrow> string" where
  "upto_last_slash [] = []"
| "upto_last_slash (c # cs) =
     (if CHR ''/'' \<in> set (c # cs) then c # upto_last_slash cs else [])"

definition filepath_Dir :: "string \<Rightarrow> string" where
  "filepath_Dir p = filepath_Clean (upto_last_slash p)"

section \<open>The file system the program runs on\<close>

text \<open>
  The program reads and changes the disk through \<open>os.Lstat\<close>, \<open>os.Readlink\<close>,
  \<open>os.Stat\<close>, \<open>os.Remove\<close>, \<open>os.ReadDir\<close>, \<open>os.MkdirAll\<close> and \<open>os.Symlink\<close>.
  The disk is a finite table from locations to nodes. A location is the list of names
  from the root down to the node, with no symbolic link in it; the root is \<open>[]\<close> and is
  always a directory. The working directory is a location, or absent when it cannot be
  determined. \<open>nowrite\<close> lists the directories in which no entry may be created or
  removed.
\<close>

datatype node = FileNode | DirNode | SymlinkNode string

datatype errno = ENOENT | ENOTDIR | ELOOP | EINVAL | EACCES | EEXIST | ENOTEMPTY | EBUSY

text \<open>
  Go's \<open>*PathError\<close> (operation, path, cause), \<open>*LinkError\<close> (operation, old, new,
  cause) and \<open>*SyscallError\<close> (system call, cause).
\<close>

datatype oserror =
    PathError string string errno
  | LinkError string string string errno
  | SyscallError string errno

record filesys =
  nodes :: "(string list \<times> node) list"
  cwd :: "string list option"
  nowrite :: "string list list"

definition node_at :: "filesys \<Rightarrow> string list \<Rightarrow> node option" where
  "node_at fs loc = (if loc = [] then Some DirNode else map_of (nodes fs) loc)"

text \<open>
  The elements the kernel walks through: empty elements are skipped, and a path that
  ends in a separator is resolved as if \<open>.\<close> were appended.
\<close>

definition components :: "string \<Rightarrow> string list" where
  "components p =
     filter (\<lambda>c. c \<noteq> []) (split_slash p) @
     (if p \<noteq> [] \<and> last p = CHR ''/'' \<and> (\<exists>c \<in> set p. c \<noteq> CHR ''/'') then [''.''] else [])"

text \<open>
  Path resolution. \<open>walk fs n follow cur cs\<close> resolves the elements \<open>cs\<close> from the
  directory at \<open>cur\<close>. At most \<open>n\<close> symbolic links are followed, then the walk fails
  with \<open>ELOOP\<close>. A link in the last position is followed only when \<open>follow\<close> is set.
\<close>

function walk :: "filesys \<Rightarrow> nat \<Rightarrow> bool \<Rightarrow> string list \<Rightarrow> string list \<Rightarrow> errno + string list" where
  "walk fs n follow cur [] = Inr cur"
| "walk fs n follow cur (c # cs) =
     (if c = ''.'' then walk fs n follow cur cs
      else if c = ''..'' then walk fs n follow (butlast cur) cs
      else (case node_at fs (cur @ [c]) of
              None \<Rightarrow> Inl ENOENT
            | Some FileNode \<Rightarrow> (if cs = [] then Inr (cur @ [c]) else Inl ENOTDIR)
            | Some DirNode \<Rightarrow> walk fs n follow (cur @ [c]) cs
            | Some (SymlinkNode t) \<Rightarrow>
                (if cs = [] \<and> \<not> follow then Inr (cur @ [c])
                 else if n = 0 then Inl ELOOP
                 else if t = [] then Inl ENOENT
                 else walk fs (n - 1) follow (if filepath_IsAbs t then [] else cur)
                        (components t @ cs))))"
  by pat_completeness auto
termination
  by (relation "measures [\<lambda>(fs, n, follow, cur, cs). n, \<lambda>(fs, n, follow, cur, cs). length cs]") auto

definition maxSymlinks :: nat where
  "maxSymlinks = 40"

text \<open>A location is usable as a directory when it and all its ancestors are directories.\<close>

definition dir_chain :: "filesys \<Rightarrow> string list \<Rightarrow> bool" where
  "dir_chain fs loc = list_all (\<lambda>k. node_at fs (take k loc) = Some DirNode) [0..<Suc (length loc)]"

definition start_loc :: "filesys \<Rightarrow> string \<Rightarrow> errno + string list" where
  "start_loc fs p =
     (if filepath_IsAbs p then Inr []
      else (case cwd fs of
              None \<Rightarrow> Inl ENOENT
            | Some d \<Rightarrow> if dir_chain fs d then Inr d else Inl ENOENT))"

definition resolve :: "filesys \<Rightarrow> bool \<Rightarrow> string \<Rightarrow> errno + string list" where
  "resolve fs follow p =
     (if p = [] then Inl ENOENT
      else (case start_loc fs p of
              Inl e \<Rightarrow> Inl e
            | Inr d \<Rightarrow> walk fs maxSymlinks follow d (components p)))"

text \<open>
  \<open>os.Getwd\<close> gives the name of the working directory as the system call does, with
  no symbolic link in it; the shortcut through the environment variable \<open>PWD\<close> is
  left out.
\<close>

definition os_Getwd :: "filesys \<Rightarrow> oserror + string" where
  "os_Getwd fs =
     (case cwd fs of
        None \<Rightarrow> Inl (SyscallError ''getwd'' ENOENT)
      | Some d \<Rightarrow> if dir_chain fs d then Inr (CHR ''/'' # join_slash d)
                  else Inl (SyscallError ''getwd'' ENOENT))"

text \<open>\<open>filepath.Abs\<close>: an absolute path is cleaned, a relative one is joined to the working directory.\<close>

definition filepath_Abs :: "filesys \<Rightarrow> string \<Rightarrow> oserror + string" where
  "filepath_Abs fs p =
     (if filepath_IsAbs p then Inr (filepath_Clean p)
      else (case os_Getwd fs of
              Inl e \<Rightarrow> Inl e
            | Inr wd \<Rightarrow> Inr (filepath_Join [wd, p])))"

definition os_Lstat :: "filesys \<Rightarrow> string \<Rightarrow> oserror + node" where
  "os_Lstat fs p =
     (case resolve fs False p of
        Inl e \<Rightarrow> Inl (PathError ''lstat'' p e)
      | Inr loc \<Rightarrow> (case node_at fs loc of
                     None \<Rightarrow> Inl (PathError ''lstat'' p ENOENT)
                   | Some nd \<Rightarrow> Inr nd))"

definition os_Stat :: "filesys \<Rightarrow> string \<Rightarrow> oserror + node" where
  "os_Stat fs p =
     (case resolve fs True p of
        Inl e \<Rightarrow> Inl (PathError ''stat'' p e)
      | Inr loc \<Rightarrow> (case node_at fs loc of
                     None \<Rightarrow> Inl (PathError ''stat'' p ENOENT)
                   | Some nd \<Rightarrow> Inr nd))"

definition os_Readlink :: "filesys \<Rightarrow> string \<Rightarrow> oserror + string" where
  "os_Readlink fs p =
     (case resolve fs False p of
        Inl e \<Rightarrow> Inl (PathError ''readlink'' p e)
      | Inr loc \<Rightarrow> (case node_at fs loc of
                     Some (SymlinkNode t) \<Rightarrow> Inr t
                   | _ \<Rightarrow> Inl (PathError ''readlink'' p EINVAL)))"

definition has_children :: "filesys \<Rightarrow> string list \<Rightarrow> bool" where
  "has_children fs loc = list_ex (\<lambda>(k, nd). k \<noteq> [] \<and> butlast k = loc) (nodes fs)"

definition delete_node :: "filesys \<Rightarrow> string list \<Rightarrow> filesys" where
  "delete_node fs loc = fs\<lparr>nodes := filter (\<lambda>(k, nd). k \<noteq> loc) (nodes fs)\<rparr>"

text \<open>
  \<open>os.Remove\<close> unlinks a file or a symbolic link (never what the link points to) and
  removes an empty directory.
\<close>

definition os_Remove :: "filesys \<Rightarrow> string \<Rightarrow> oserror + filesys" where
  "os_Remove fs p =
     (case resolve fs False p of
        Inl e \<Rightarrow> Inl (PathError ''remove'' p e)
      | Inr loc \<Rightarrow>
          if loc = [] then Inl (PathError ''remove'' p EBUSY)
          else if butlast loc \<in> set (nowrite fs) then Inl (PathError ''remove'' p EACCES)
          else (case node_at fs loc of
                  None \<Rightarrow> Inl (PathError ''remove'' p ENOENT)
                | Some DirNode \<Rightarrow>
                    if has_children fs loc then Inl (PathError ''remove'' p ENOTEMPTY)
                    else Inr (delete_node fs loc)
                | Some _ \<Rightarrow> Inr (delete_node fs loc)))"

section \<open>The symlink classifier\<close>

definition is_symlink :: "node \<Rightarrow> bool" where
  "is_symlink info = (case info of SymlinkNode t \<Rightarrow> True | _ \<Rightarrow> False)"

text \<open>
  \<open>isAppliedSymlink\<close> of \<open>main.go\<close>. It returns its verdict and the disk it leaves
  behind; the result of the cleanup \<open>os.Remove\<close> is dropped, as in the source.
\<close>

definition isAppliedSymlink :: "filesys \<Rightarrow> string \<Rightarrow> string \<Rightarrow> bool \<times> filesys" where
  "isAppliedSymlink fs projectPath globalPath =
     (case os_Lstat fs projectPath of
        Inl err \<Rightarrow> (False, fs)
      | Inr info \<Rightarrow>
          if \<not> is_symlink info then (False, fs)
          else (case os_Readlink fs projectPath of
                  Inl err \<Rightarrow> (False, fs)
                | Inr target0 \<Rightarrow>
                    let target = (if \<not> filepath_IsAbs target0
                                  then filepath_Join [filepath_Dir projectPath, target0]
                                  else target0)
                    in (case filepath_Abs fs target of
                          Inl err \<Rightarrow> (False, fs)
                        | Inr absTarget \<Rightarrow>
                            (case filepath_Abs fs globalPath of
                               Inl err \<Rightarrow> (False, fs)
                             | Inr absGlobal \<Rightarrow>
                                 if absTarget \<noteq> absGlobal then (False, fs)
                                 else (case os_Stat fs projectPath of
                                         Inl err \<Rightarrow>
                                           (False, (case os_Remove fs projectPath of
                                                      Inl err' \<Rightarrow> fs
                                                    | Inr fs' \<Rightarrow> fs'))
                                       | Inr _ \<Rightarrow> (True, fs))))))"


section \<open>Directory listings and the two mutations\<close>

record dirEntry =
  entName :: string
  entIsDir :: bool

definition child_names :: "filesys \<Rightarrow> string list \<Rightarrow> string list" where
  "child_names fs loc =
     sort (remdups (map (\<lambda>(k, nd). last k)
                        (filter (\<lambda>(k, nd). k \<noteq> [] \<and> butlast k = loc) (nodes fs))))"

text \<open>
  \<open>os.ReadDir\<close> returns the entries of a directory sorted by file name. An entry is a
  directory only when the node itself is one: a symbolic link to a directory is not.
\<close>

definition os_ReadDir :: "filesys \<Rightarrow> string \<Rightarrow> oserror + dirEntry list" where
  "os_ReadDir fs p =
     (case resolve fs True p of
        Inl e \<Rightarrow> Inl (PathError ''open'' p e)
      | Inr loc \<Rightarrow>
          (case node_at fs loc of
             Some DirNode \<Rightarrow>
               Inr (map (\<lambda>nm. \<lparr>entName = nm,
                                entIsDir = (node_at fs (loc @ [nm]) = Some DirNode)\<rparr>)
                        (child_names fs loc))
           | _ \<Rightarrow> Inl (PathError ''readdirent'' p ENOTDIR)))"

definition add_node :: "filesys \<Rightarrow> string list \<Rightarrow> node \<Rightarrow> filesys" where
  "add_node fs loc nd = fs\<lparr>nodes := (loc, nd) # nodes fs\<rparr>"

text \<open>
  \<open>os.Mkdir\<close> creates one directory. It fails when anything, a dangling link included,
  already has the name; separators at the end of the path are ignored.
\<close>

definition os_Mkdir :: "filesys \<Rightarrow> string \<Rightarrow> oserror + filesys" where
  "os_Mkdir fs p =
     (let cs = filter (\<lambda>c. c \<noteq> []) (split_slash p) in
      if p = [] then Inl (PathError ''mkdir'' p ENOENT)
      else if cs = [] then Inl (PathError ''mkdir'' p EEXIST)
      else (case start_loc fs p of
              Inl e \<Rightarrow> Inl (PathError ''mkdir'' p e)
            | Inr d \<Rightarrow>
                (case walk fs maxSymlinks True d (butlast cs) of
                   Inl e \<Rightarrow> Inl (PathError ''mkdir'' p e)
                 | Inr ploc \<Rightarrow>
                     (case node_at fs ploc of
                        None \<Rightarrow> Inl (PathError ''mkdir'' p ENOENT)
                      | Some DirNode \<Rightarrow>
                          if last cs = ''.'' \<or> last cs = ''..''
                             \<or> node_at fs (ploc @ [last cs]) \<noteq> None
                          then Inl (PathError ''mkdir'' p EEXIST)
                          else if ploc \<in> set (nowrite fs)
                          then Inl (PathError ''mkdir'' p EACCES)
                          else Inr (add_node fs (ploc @ [last cs]) DirNode)
                      | Some _ \<Rightarrow> Inl (PathError ''mkdir'' p ENOTDIR)))))"

definition strip_trailing_slashes :: "string \<Rightarrow> string" where
  "strip_trailing_slashes p = rev (dropWhile (\<lambda>c. c = CHR ''/'') (rev p))"

text \<open>
  \<open>os.MkdirAll\<close>, as the library has it: when the path exists the call is over at
  once, with success for a directory; otherwise the parent, the path without its last
  element, is created first, and then the directory itself with \<open>os.Mkdir\<close>. An error
  names the path of the step that failed, and what was created before stays on disk.
\<close>

function os_MkdirAll :: "filesys \<Rightarrow> string \<Rightarrow> oserror option \<times> filesys" where
  "os_MkdirAll fs path =
     (case os_Stat fs path of
        Inr dir \<Rightarrow>
          if dir = DirNode then (None, fs)
          else (Some (PathError ''mkdir'' path ENOTDIR), fs)
      | Inl err0 \<Rightarrow>
          let j = length (upto_last_slash (strip_trailing_slashes path))
          in (case (if j > 1 then os_MkdirAll fs (take (j - 1) path) else (None, fs)) of
                (Some err, fs1) \<Rightarrow> (Some err, fs1)
              | (None, fs1) \<Rightarrow>
                  (case os_Mkdir fs1 path of
                     Inr fs2 \<Rightarrow> (None, fs2)
                   | Inl err \<Rightarrow>
                       (case os_Lstat fs1 path of
                          Inr DirNode \<Rightarrow> (None, fs1)
                        | _ \<Rightarrow> (Some err, fs1)))))"
  by pat_completeness auto
termination
proof (relation "measure (\<lambda>(fs, path). length path)")
  show "wf (measure (\<lambda>(fs, path). length path))" by simp
next
  fix fs :: filesys and path :: string and err0 :: oserror and j :: nat
  assume j: "j = length (upto_last_slash (strip_trailing_slashes path))" and "1 < j"
  have a: "length (upto_last_slash q) \<le> length q" for q
    by (induction q) auto
  have b: "length (strip_trailing_slashes path) \<le> length path"
    unfolding strip_trailing_slashes_def
    using length_dropWhile_le [of "\<lambda>c. c = CHR ''/''" "rev path"] by simp
  from a [of "strip_trailing_slashes path"] b j have "j \<le> length path" by simp
  with \<open>1 < j\<close> show "((fs, take (j - 1) path), (fs, path)) \<in> measure (\<lambda>(fs, path). length path)"
    by simp
qed

text \<open>
  \<open>os.Symlink oldname newname\<close> creates the link \<open>newname\<close> holding the text
  \<open>oldname\<close>. It fails when anything, a dangling link included, is already at
  \<open>newname\<close>.
\<close>

definition os_Symlink :: "filesys \<Rightarrow> string \<Rightarrow> string \<Rightarrow> oserror + filesys" where
  "os_Symlink fs oldname newname =
     (let cs = components newname in
      if newname = [] then Inl (LinkError ''symlink'' oldname newname ENOENT)
      else if cs = [] then Inl (LinkError ''symlink'' oldname newname EEXIST)
      else (case start_loc fs newname of
              Inl e \<Rightarrow> Inl (LinkError ''symlink'' oldname newname e)
            | Inr d \<Rightarrow>
                (case walk fs maxSymlinks True d (butlast cs) of
                   Inl e \<Rightarrow> Inl (LinkError ''symlink'' oldname newname e)
                 | Inr ploc \<Rightarrow>
                     (case node_at fs ploc of
                        None \<Rightarrow> Inl (LinkError ''symlink'' oldname newname ENOENT)
                      | Some DirNode \<Rightarrow>
                          if last cs = ''.'' \<or> last cs = ''..''
                             \<or> node_at fs (ploc @ [last cs]) \<noteq> None
                          then Inl (LinkError ''symlink'' oldname newname EEXIST)
                          else if oldname = []
                          then Inl (LinkError ''symlink'' oldname newname ENOENT)
                          else if ploc \<in> set (nowrite fs)
                          then Inl (LinkError ''symlink'' oldname newname EACCES)
                          else Inr (add_node fs (ploc @ [last cs]) (SymlinkNode oldname))
                      | Some _ \<Rightarrow> Inl (LinkError ''symlink'' oldname newname ENOTDIR)))))"

text \<open>The text of an error, as \<open>%v\<close> prints it.\<close>

fun errno_text :: "errno \<Rightarrow> string" where
  "errno_text ENOENT = ''no such file or directory''"
| "errno_text ENOTDIR = ''not a directory''"
| "errno_text ELOOP = ''too many levels of symbolic links''"
| "errno_text EINVAL = ''invalid argument''"
| "errno_text EACCES = ''permission denied''"
| "errno_text EEXIST = ''file exists''"
| "errno_text ENOTEMPTY = ''directory not empty''"
| "errno_text EBUSY = ''device or resource busy''"

fun error_text :: "oserror \<Rightarrow> string" where
  "error_text (PathError op p e) = op @ '' '' @ p @ '': '' @ errno_text e"
| "error_text (LinkError op old new e) = op @ '' '' @ old @ '' '' @ new @ '': '' @ errno_text e"
| "error_text (SyscallError call e) = call @ '': '' @ errno_text e"

section \<open>The application state\<close>

record Category =
  cat_Name :: string
  cat_GlobalDir :: string
  cat_ProjectDir :: string

record Item =
  item_Name :: string
  item_IsDir :: bool
  item_GlobalPath :: string

text \<open>
  The fields of \<open>App\<close> that the catalog and the mutations read or write. The two
  \<open>tview.List\<close> widgets are kept as their cursor (\<open>GetCurrentItem\<close>), the status bar
  as its text. The disk is passed along next to the record.
\<close>

record App =
  categories :: "Category list"
  activeTabIdx :: int
  availableItems :: "Item list"
  appliedItems :: "Item list"
  projectRoot :: string
  globalRoot :: string
  currentPanelIdx :: int
  availableList_current :: int
  appliedList_current :: int
  statusBar :: string

text \<open>Indexing a slice panics when the index is out of range.\<close>

datatype fault = IndexOutOfRange

definition index_at :: "'a list \<Rightarrow> int \<Rightarrow> fault + 'a" where
  "index_at xs i =
     (if 0 \<le> i \<and> i < int (length xs) then Inr (xs ! nat i) else Inl IndexOutOfRange)"

section \<open>Category discovery\<close>

fun loadCategories_loop :: "App \<Rightarrow> dirEntry list \<Rightarrow> Category list \<Rightarrow> Category list" where
  "loadCategories_loop a [] cats = cats"
| "loadCategories_loop a (entry # entries) cats =
     (if \<not> entIsDir entry \<or> strings_HasPrefix (entName entry) ''.''
      then loadCategories_loop a entries cats
      else loadCategories_loop a entries
             (cats @ [\<lparr>cat_Name = entName entry,
                       cat_GlobalDir = filepath_Join [globalRoot a, entName entry],
                       cat_ProjectDir = filepath_Join [projectRoot a, ''.claude'', entName entry]\<rparr>]))"

text \<open>
  \<open>loadCategories\<close>. \<open>sort.Slice\<close> orders the categories by name; the names of one
  directory listing are pairwise different, so the sorted slice is the same for every
  sorting algorithm.
\<close>

definition loadCategories :: "App \<Rightarrow> filesys \<Rightarrow> oserror + App" where
  "loadCategories a fs =
     (case os_ReadDir fs (globalRoot a) of
        Inl err \<Rightarrow> Inl err
      | Inr entries \<Rightarrow>
          Inr (a\<lparr>categories := sort_key cat_Name (loadCategories_loop a entries [])\<rparr>))"

text \<open>
  \<open>main\<close> up to the point where the user interface is set up. \<open>home\<close> is the result
  of \<open>os.UserHomeDir\<close>. \<open>Inl\<close> carries what is printed on standard error before
  \<open>os.Exit(1)\<close>.
\<close>

definition newline :: string where
  "newline = [CHR 0x0A]"

definition main_startup :: "string option \<Rightarrow> filesys \<Rightarrow> string + App" where
  "main_startup home fs =
     (case home of
        None \<Rightarrow> Inl (''Error: $HOME is not defined'' @ newline)
      | Some h \<Rightarrow>
          (case os_Getwd fs of
             Inl err \<Rightarrow> Inl (''Error: '' @ error_text err @ newline)
           | Inr wd \<Rightarrow>
               let a = \<lparr>categories = [], activeTabIdx = 0, availableItems = [],
                        appliedItems = [], projectRoot = wd,
                        globalRoot = filepath_Join [h, ''.config'', ''claude''],
                        currentPanelIdx = 0, availableList_current = 0,
                        appliedList_current = 0, statusBar = []\<rparr>
               in (case loadCategories a fs of
                     Inl err \<Rightarrow> Inl (''Error loading categories: '' @ error_text err @ newline)
                   | Inr a' \<Rightarrow>
                       if length (categories a') = 0
                       then Inl (''No categories found in '' @ globalRoot a' @ newline)
                       else Inr a')))"

section \<open>The item catalog\<close>

fun loadItems_loop ::
  "Category \<Rightarrow> dirEntry list \<Rightarrow> Item list \<times> Item list \<times> filesys \<Rightarrow> Item list \<times> Item list \<times> filesys" where
  "loadItems_loop cat [] st = st"
| "loadItems_loop cat (entry # entries) (available, applied, fs) =
     (if strings_HasPrefix (entName entry) ''.''
      then loadItems_loop cat entries (available, applied, fs)
      else
        let item = \<lparr>item_Name = entName entry, item_IsDir = entIsDir entry,
                    item_GlobalPath = filepath_Join [cat_GlobalDir cat, entName entry]\<rparr>;
            projectPath = filepath_Join [cat_ProjectDir cat, entName entry];
            r = isAppliedSymlink fs projectPath (item_GlobalPath item)
        in if fst r
           then loadItems_loop cat entries (available, applied @ [item], snd r)
           else loadItems_loop cat entries (available @ [item], applied, snd r))"

text \<open>
  \<open>loadItems\<close>. The classifier may change the disk, so the loop hands the disk on from
  entry to entry. The two \<open>sort.Slice\<close> calls order by name; the names of one listing
  are pairwise different, so every sorting algorithm returns the same slice.
\<close>

definition loadItems :: "App \<Rightarrow> filesys \<Rightarrow> fault + App \<times> filesys" where
  "loadItems a fs =
     (case index_at (categories a) (activeTabIdx a) of
        Inl f \<Rightarrow> Inl f
      | Inr cat \<Rightarrow>
          let a1 = a\<lparr>availableItems := [], appliedItems := []\<rparr>
          in (case os_ReadDir fs (cat_GlobalDir cat) of
                Inl err \<Rightarrow> Inr (a1, fs)
              | Inr entries \<Rightarrow>
                  (case loadItems_loop cat entries ([], [], fs) of
                     (available, applied, fs') \<Rightarrow>
                       Inr (a1\<lparr>availableItems := sort_key item_Name available,
                                appliedItems := sort_key item_Name applied\<rparr>, fs'))))"


section \<open>Refresh, apply and remove\<close>

text \<open>
  \<open>refreshAvailableList\<close> and \<open>refreshAppliedList\<close> rebuild a list widget: \<open>Clear\<close>
  puts the cursor back to 0, and the old cursor, clamped to the new length, is set
  again when it is not negative.
\<close>

definition refreshAvailableList :: "App \<Rightarrow> App" where
  "refreshAvailableList a =
     (let currentIdx = availableList_current a;
          currentIdx' = (if currentIdx \<ge> int (length (availableItems a))
                         then int (length (availableItems a)) - 1 else currentIdx)
      in a\<lparr>availableList_current := (if currentIdx' \<ge> 0 then currentIdx' else 0)\<rparr>)"

definition refreshAppliedList :: "App \<Rightarrow> App" where
  "refreshAppliedList a =
     (let currentIdx = appliedList_current a;
          currentIdx' = (if currentIdx \<ge> int (length (appliedItems a))
                         then int (length (appliedItems a)) - 1 else currentIdx)
      in a\<lparr>appliedList_current := (if currentIdx' \<ge> 0 then currentIdx' else 0)\<rparr>)"

definition updateStatusBar :: "App \<Rightarrow> App" where
  "updateStatusBar a =
     a\<lparr>statusBar := '' [1-2] panels  [j/k] navigate  [J/K] scroll preview  [space/enter] toggle  [/] tabs  [t] tree  [?] help  [q] quit''\<rparr>"

text \<open>
  \<open>refreshAll\<close>. The tab bar, the panel titles, the preview pane and the border
  colours are widgets that are only written; they are left out of the record.
\<close>

definition refreshAll :: "App \<Rightarrow> filesys \<Rightarrow> fault + App \<times> filesys" where
  "refreshAll a fs =
     (case loadItems a fs of
        Inl f \<Rightarrow> Inl f
      | Inr (a1, fs1) \<Rightarrow>
          Inr (updateStatusBar (refreshAppliedList (refreshAvailableList a1)), fs1))"

definition applySelected :: "App \<Rightarrow> filesys \<Rightarrow> fault + App \<times> filesys" where
  "applySelected a fs =
     (let idx = availableList_current a in
      if idx < 0 \<or> idx \<ge> int (length (availableItems a)) then Inr (a, fs)
      else (case index_at (categories a) (activeTabIdx a) of
              Inl f \<Rightarrow> Inl f
            | Inr cat \<Rightarrow>
                (case index_at (availableItems a) idx of
                   Inl f \<Rightarrow> Inl f
                 | Inr item \<Rightarrow>
                     (case os_MkdirAll fs (cat_ProjectDir cat) of
                        (Some err, fs1) \<Rightarrow>
                          Inr (a\<lparr>statusBar := '' [red]Error:[-] '' @ error_text err\<rparr>, fs1)
                      | (None, fs1) \<Rightarrow>
                          let target = filepath_Join [cat_ProjectDir cat, item_Name item]
                          in (case os_Symlink fs1 (item_GlobalPath item) target of
                                Inl err \<Rightarrow>
                                  Inr (a\<lparr>statusBar := '' [red]Error:[-] '' @ error_text err\<rparr>, fs1)
                              | Inr fs2 \<Rightarrow> refreshAll a fs2)))))"

definition removeSelected :: "App \<Rightarrow> filesys \<Rightarrow> fault + App \<times> filesys" where
  "removeSelected a fs =
     (let idx = appliedList_current a in
      if idx < 0 \<or> idx \<ge> int (length (appliedItems a)) then Inr (a, fs)
      else (case index_at (categories a) (activeTabIdx a) of
              Inl f \<Rightarrow> Inl f
            | Inr cat \<Rightarrow>
                (case index_at (appliedItems a) idx of
                   Inl f \<Rightarrow> Inl f
                 | Inr item \<Rightarrow>
                     let target = filepath_Join [cat_ProjectDir cat, item_Name item]
                     in (case os_Remove fs target of
                           Inl err \<Rightarrow>
                             Inr (a\<lparr>statusBar := '' [red]Error:[-] '' @ error_text err\<rparr>, fs)
                         | Inr fs1 \<Rightarrow> refreshAll a fs1))))"

section \<open>The tree renderer\<close>

text \<open>The box-drawing connectors, as the UTF-8 bytes of the source's string literals.\<close>

definition connector_tee :: string where
  "connector_tee = [CHR 0xE2, CHR 0x94, CHR 0x9C, CHR 0xE2, CHR 0x94, CHR 0x80,
                    CHR 0xE2, CHR 0x94, CHR 0x80, CHR '' '']"

definition connector_elbow :: string where
  "connector_elbow = [CHR 0xE2, CHR 0x94, CHR 0x94, CHR 0xE2, CHR 0x94, CHR 0x80,
                      CHR 0xE2, CHR 0x94, CHR 0x80, CHR '' '']"

definition prefix_bar :: string where
  "prefix_bar = [CHR 0xE2, CHR 0x94, CHR 0x82, CHR '' '', CHR '' '', CHR '' '']"

definition prefix_blank :: string where
  "prefix_blank = ''    ''"

definition truncation_marker :: string where
  "truncation_marker = ''[darkgray]...[-]''"

text \<open>
  \<open>buildTree\<close>; the result is the text appended to the \<open>strings.Builder\<close>. The loop
  over the entries carries the index \<open>i\<close> of the entry in the whole listing.
\<close>

function buildTree :: "filesys \<Rightarrow> string \<Rightarrow> string \<Rightarrow> int \<Rightarrow> string" where
  "buildTree fs dir prefix depth =
     (if depth > 3 then prefix @ truncation_marker @ newline
      else (case os_ReadDir fs dir of
              Inl err \<Rightarrow> []
            | Inr entries \<Rightarrow>
                concat (map (\<lambda>(i, entry).
                    if strings_HasPrefix (entName entry) ''.'' then []
                    else
                      let isLast = (i = int (length entries) - 1);
                          connector = (if isLast then connector_elbow else connector_tee);
                          childPrefix = prefix @ (if isLast then prefix_blank else prefix_bar)
                      in if entIsDir entry
                         then prefix @ connector @ ''[cyan]'' @ entName entry @ ''/[-]'' @ newline @
                              buildTree fs (filepath_Join [dir, entName entry]) childPrefix (depth + 1)
                         else prefix @ connector @ entName entry @ newline)
                  (zip (map int [0..<length entries]) entries))))"
  by pat_completeness auto
termination
  by (relation "measure (\<lambda>(fs, dir, prefix, depth). nat (4 - depth))") auto


section \<open>Example disks\<close>

text \<open>
  A global store \<open>/g\<close> with the category \<open>agents\<close>, reachable under the second name
  \<open>/store\<close> as well, and a project \<open>/p\<close>. In the project, \<open>a.md\<close> is linked to its
  store file, \<open>b.md\<close> is linked to a store file that is gone, \<open>c.md\<close> is linked to its
  store file through the name \<open>/store\<close>, and \<open>d.md\<close> points outside the store to a
  file that does not exist.
\<close>

definition disk_demo :: filesys where
  "disk_demo =
     \<lparr>nodes =
        [([''g''], DirNode),
         ([''g'', ''agents''], DirNode),
         ([''g'', ''agents'', ''a.md''], FileNode),
         ([''g'', ''agents'', ''c.md''], FileNode),
         ([''g'', ''agents'', ''d.md''], FileNode),
         ([''store''], SymlinkNode ''/g''),
         ([''p''], DirNode),
         ([''p'', ''.claude''], DirNode),
         ([''p'', ''.claude'', ''agents''], DirNode),
         ([''p'', ''.claude'', ''agents'', ''a.md''], SymlinkNode ''/g/agents/a.md''),
         ([''p'', ''.claude'', ''agents'', ''b.md''], SymlinkNode ''../../../g/agents/b.md''),
         ([''p'', ''.claude'', ''agents'', ''c.md''], SymlinkNode ''/store/agents/c.md''),
         ([''p'', ''.claude'', ''agents'', ''d.md''], SymlinkNode ''/elsewhere/d.md'')],
      cwd = Some [''p''],
      nowrite = []\<rparr>"

definition disk_locked :: filesys where
  "disk_locked = disk_demo\<lparr>nowrite := [[''p'', ''.claude'', ''agents'']]\<rparr>"

text \<open>
  The application on that disk: the state \<open>main\<close> starts from, the state with the two
  categories \<open>agents\<close> and \<open>skills\<close> (the directory of the second is gone from the
  store), and the state after a refresh. \<open>disk_changed\<close> is the example disk after
  \<open>d.md\<close> was taken out of the store by someone else, \<open>disk_free\<close> the example disk
  with nothing at the project path of \<open>d.md\<close>.
\<close>

definition cat_agents :: Category where
  "cat_agents = \<lparr>cat_Name = ''agents'', cat_GlobalDir = ''/g/agents'',
                  cat_ProjectDir = ''/p/.claude/agents''\<rparr>"

definition cat_skills :: Category where
  "cat_skills = \<lparr>cat_Name = ''skills'', cat_GlobalDir = ''/g/skills'',
                  cat_ProjectDir = ''/p/.claude/skills''\<rparr>"

definition app_init :: App where
  "app_init = \<lparr>categories = [], activeTabIdx = 0, availableItems = [], appliedItems = [],
                projectRoot = ''/p'', globalRoot = ''/g'', currentPanelIdx = 0,
                availableList_current = 0, appliedList_current = 0, statusBar = []\<rparr>"

definition app_demo :: App where
  "app_demo = app_init\<lparr>categories := [cat_agents, cat_skills]\<rparr>"

definition item_a :: Item where
  "item_a = \<lparr>item_Name = ''a.md'', item_IsDir = False, item_GlobalPath = ''/g/agents/a.md''\<rparr>"

definition item_c :: Item where
  "item_c = \<lparr>item_Name = ''c.md'', item_IsDir = False, item_GlobalPath = ''/g/agents/c.md''\<rparr>"

definition item_d :: Item where
  "item_d = \<lparr>item_Name = ''d.md'', item_IsDir = False, item_GlobalPath = ''/g/agents/d.md''\<rparr>"

definition app_loaded :: App where
  "app_loaded = updateStatusBar (app_demo\<lparr>availableItems := [item_c, item_d], appliedItems := [item_a]\<rparr>)"

definition disk_changed :: filesys where
  "disk_changed = delete_node disk_demo [''g'', ''agents'', ''d.md'']"

definition disk_free :: filesys where
  "disk_free = delete_node disk_demo [''p'', ''.claude'', ''agents'', ''d.md'']"

text \<open>
  Two directories for the tree renderer: one nested five levels deep, and one whose
  listing ends in a hidden entry.
\<close>

definition disk_deep :: filesys where
  "disk_deep =
     \<lparr>nodes =
        [([''t''], DirNode),
         ([''t'', ''l1''], DirNode),
         ([''t'', ''l1'', ''l2''], DirNode),
         ([''t'', ''l1'', ''l2'', ''l3''], DirNode),
         ([''t'', ''l1'', ''l2'', ''l3'', ''l4''], DirNode),
         ([''t'', ''l1'', ''l2'', ''l3'', ''l4'', ''l5''], DirNode)],
      cwd = Some [],
      nowrite = []\<rparr>"

definition disk_hidden_last :: filesys where
  "disk_hidden_last =
     \<lparr>nodes =
        [([''t''], DirNode),
         ([''t'', ''+page.md''], FileNode),
         ([''t'', ''.gitignore''], FileNode)],
      cwd = Some [],
      nowrite = []\<rparr>"

section \<open>Path resolution and deletion\<close>

lemma dir_chain_iff: "dir_chain fs loc \<longleftrightarrow> (\<forall>k \<le> length loc. node_at fs (take k loc) = Some DirNode)"
  by (auto simp: dir_chain_def list_all_iff less_Suc_eq_le)

lemma dir_chain_Nil: "dir_chain fs []"
  by (simp add: dir_chain_iff node_at_def)

lemma dir_chain_self: "dir_chain fs loc \<Longrightarrow> node_at fs loc = Some DirNode"
  by (auto simp: dir_chain_iff dest: spec[of _ "length loc"])

lemma dir_chain_butlast: "dir_chain fs loc \<Longrightarrow> dir_chain fs (butlast loc)"
  unfolding dir_chain_iff
proof (intro allI impI)
  fix k
  assume a: "\<forall>k\<le>length loc. node_at fs (take k loc) = Some DirNode" and k: "k \<le> length (butlast loc)"
  then have "take k (butlast loc) = take k loc"
    by (simp add: take_butlast butlast_conv_take)
  moreover from k have "k \<le> length loc" by simp
  ultimately show "node_at fs (take k (butlast loc)) = Some DirNode" using a by simp
qed

lemma dir_chain_snoc:
  "dir_chain fs cur \<Longrightarrow> node_at fs (cur @ [c]) = Some DirNode \<Longrightarrow> dir_chain fs (cur @ [c])"
  unfolding dir_chain_iff
  by (auto simp: le_Suc_eq)

lemma map_of_filter_neq:
  "map_of (filter (\<lambda>(k, nd). k \<noteq> loc) xs) k = (if k = loc then None else map_of xs k)"
  by (induction xs) auto

lemma node_at_delete_node:
  "node_at (delete_node fs loc) k = (if k = loc \<and> k \<noteq> [] then None else node_at fs k)"
  by (simp add: node_at_def delete_node_def map_of_filter_neq)

lemma dir_chain_delete_node:
  assumes "node_at fs loc = Some (SymlinkNode t)"
  shows "dir_chain (delete_node fs loc) d = dir_chain fs d"
  using assms unfolding dir_chain_iff node_at_delete_node
  by (metis node.distinct(5) option.distinct(1) option.inject)

lemma walk_delete_node:
  assumes "walk fs n follow cur cs = Inr loc" "\<not> follow"
    and "node_at fs loc = Some (SymlinkNode t)" and "dir_chain fs cur"
  shows "walk (delete_node fs loc) n follow cur cs = Inl ENOENT"
  using assms
proof (induction fs n follow cur cs rule: walk.induct)
  case (1 fs n follow cur)
  then show ?case by (auto dest: dir_chain_self)
next
  case (2 fs n follow cur c cs)
  show ?case
  proof (cases "c = ''.''")
    case True
    with 2 show ?thesis by simp
  next
    case nd: False
    show ?thesis
    proof (cases "c = ''..''")
      case True
      with nd 2 show ?thesis by (simp add: dir_chain_butlast)
    next
      case ndd: False
      show ?thesis
      proof (cases "node_at fs (cur @ [c])")
        case None
        with nd ndd 2 show ?thesis by simp
      next
        case (Some x)
        show ?thesis
        proof (cases x)
          case FileNode
          with Some nd ndd 2 show ?thesis by (auto split: if_splits)
        next
          case DirNode
          with Some nd ndd "2.prems" have ne: "cur @ [c] \<noteq> loc" by auto
          from DirNode Some "2.prems" have dc: "dir_chain fs (cur @ [c])" by (simp add: dir_chain_snoc)
          from "2.IH"(3)[OF nd ndd Some DirNode] "2.prems" nd ndd Some DirNode dc
          have "walk (delete_node fs loc) n follow (cur @ [c]) cs = Inl ENOENT" by simp
          with nd ndd Some DirNode ne show ?thesis by (simp add: node_at_delete_node)
        next
          case (SymlinkNode t')
          show ?thesis
          proof (cases "cur @ [c] = loc")
            case True
            then have "node_at (delete_node fs loc) (cur @ [c]) = None"
              by (auto simp: node_at_delete_node)
            with nd ndd show ?thesis by simp
          next
            case False
            with Some SymlinkNode nd ndd "2.prems" have cont: "\<not> (cs = [] \<and> \<not> follow)" "n \<noteq> 0" "t' \<noteq> []"
              by (auto split: if_splits)
            have dc: "dir_chain fs (if filepath_IsAbs t' then [] else cur)"
              using "2.prems" by (simp add: dir_chain_Nil)
            from cont Some SymlinkNode nd ndd "2.prems"
            have w: "walk fs (n - 1) follow (if filepath_IsAbs t' then [] else cur) (components t' @ cs) = Inr loc"
              by (auto split: if_splits)
            from "2.IH"(4)[OF nd ndd Some SymlinkNode cont w "2.prems"(2) "2.prems"(3) dc]
            show ?thesis using False cont Some SymlinkNode nd ndd
              by (simp add: node_at_delete_node)
          qed
        qed
      qed
    qed
  qed
qed

section \<open>The classifier, case by case\<close>

lemma lstat_readlink: "os_Lstat fs p = Inr (SymlinkNode t) \<Longrightarrow> os_Readlink fs p = Inr t"
  by (auto simp: os_Lstat_def os_Readlink_def split: sum.splits option.splits)

lemma lstat_resolve:
  "os_Lstat fs p = Inr nd \<longleftrightarrow> (\<exists>loc. resolve fs False p = Inr loc \<and> node_at fs loc = Some nd)"
  by (auto simp: os_Lstat_def split: sum.splits option.splits)

lemma isAppliedSymlink_link:
  assumes "os_Lstat fs projectPath = Inr (SymlinkNode t)"
    and "tgt = (if \<not> filepath_IsAbs t then filepath_Join [filepath_Dir projectPath, t] else t)"
  shows "isAppliedSymlink fs projectPath globalPath =
     (case filepath_Abs fs tgt of
        Inl err \<Rightarrow> (False, fs)
      | Inr absTarget \<Rightarrow>
          (case filepath_Abs fs globalPath of
             Inl err \<Rightarrow> (False, fs)
           | Inr absGlobal \<Rightarrow>
               if absTarget \<noteq> absGlobal then (False, fs)
               else (case os_Stat fs projectPath of
                       Inl err \<Rightarrow> (False, (case os_Remove fs projectPath of
                                                Inl err' \<Rightarrow> fs | Inr fs' \<Rightarrow> fs'))
                     | Inr _ \<Rightarrow> (True, fs))))"
  using assms
  by (simp add: isAppliedSymlink_def is_symlink_def lstat_readlink Let_def split del: if_split)

lemma isAppliedSymlink_nolink:
  assumes "\<And>t. os_Lstat fs projectPath \<noteq> Inr (SymlinkNode t)"
  shows "isAppliedSymlink fs projectPath globalPath = (False, fs)"
proof (cases "os_Lstat fs projectPath")
  case (Inl e)
  then show ?thesis by (simp add: isAppliedSymlink_def)
next
  case (Inr info)
  with assms have "\<not> is_symlink info"
    by (cases info) (auto simp: is_symlink_def)
  with Inr show ?thesis by (simp add: isAppliedSymlink_def)
qed

lemma isAppliedSymlink_mismatch:
  assumes "os_Lstat fs projectPath = Inr (SymlinkNode t)"
    and "tgt = (if \<not> filepath_IsAbs t then filepath_Join [filepath_Dir projectPath, t] else t)"
    and "\<not> (\<exists>a. filepath_Abs fs tgt = Inr a \<and> filepath_Abs fs globalPath = Inr a)"
  shows "isAppliedSymlink fs projectPath globalPath = (False, fs)"
proof (cases "filepath_Abs fs tgt")
  case (Inl e)
  then show ?thesis by (simp add: isAppliedSymlink_link [OF assms(1,2)])
next
  case a: (Inr a)
  show ?thesis
  proof (cases "filepath_Abs fs globalPath")
    case (Inl e)
    with a show ?thesis by (simp add: isAppliedSymlink_link [OF assms(1,2)])
  next
    case (Inr b)
    with a assms(3) have "a \<noteq> b" by simp
    with a Inr show ?thesis by (simp add: isAppliedSymlink_link [OF assms(1,2)])
  qed
qed

lemma isAppliedSymlink_intact:
  assumes "os_Lstat fs projectPath = Inr (SymlinkNode t)"
    and "tgt = (if \<not> filepath_IsAbs t then filepath_Join [filepath_Dir projectPath, t] else t)"
    and "filepath_Abs fs tgt = Inr a" and "filepath_Abs fs globalPath = Inr a"
    and "os_Stat fs projectPath = Inr nd"
  shows "isAppliedSymlink fs projectPath globalPath = (True, fs)"
  using assms(3-) by (simp add: isAppliedSymlink_link [OF assms(1,2)])

lemma isAppliedSymlink_broken:
  assumes "os_Lstat fs projectPath = Inr (SymlinkNode t)"
    and "tgt = (if \<not> filepath_IsAbs t then filepath_Join [filepath_Dir projectPath, t] else t)"
    and "filepath_Abs fs tgt = Inr a" and "filepath_Abs fs globalPath = Inr a"
    and "os_Stat fs projectPath = Inl e"
  shows "isAppliedSymlink fs projectPath globalPath =
           (False, (case os_Remove fs projectPath of Inl err' \<Rightarrow> fs | Inr fs' \<Rightarrow> fs'))"
  using assms(3-) by (simp add: isAppliedSymlink_link [OF assms(1,2)])

lemma remove_symlink:
  assumes "resolve fs False p = Inr loc" and "node_at fs loc = Some (SymlinkNode t)"
  shows "os_Remove fs p =
           (if butlast loc \<in> set (nowrite fs) then Inl (PathError ''remove'' p EACCES)
            else Inr (delete_node fs loc))"
proof -
  from assms(2) have "loc \<noteq> []" by (auto simp: node_at_def)
  with assms show ?thesis by (simp add: os_Remove_def)
qed

lemma resolve_delete_node:
  assumes "resolve fs False p = Inr loc" and "node_at fs loc = Some (SymlinkNode t)"
  shows "resolve (delete_node fs loc) False p = Inl ENOENT"
proof -
  from assms(1) have ne: "p \<noteq> []" by (auto simp: resolve_def split: if_splits)
  from assms(1) ne obtain d where d: "start_loc fs p = Inr d"
    and w: "walk fs maxSymlinks False d (components p) = Inr loc"
    by (auto simp: resolve_def split: sum.splits)
  have dc: "dir_chain fs d"
    using d by (auto simp: start_loc_def dir_chain_Nil split: if_splits option.splits)
  have cw: "cwd (delete_node fs loc) = cwd fs" by (simp add: delete_node_def)
  have "start_loc (delete_node fs loc) p = start_loc fs p"
    by (simp add: start_loc_def cw dir_chain_delete_node [OF assms(2)] split: option.splits)
  moreover have "walk (delete_node fs loc) maxSymlinks False d (components p) = Inl ENOENT"
    using walk_delete_node [OF w _ assms(2) dc] by simp
  ultimately show ?thesis using ne d by (simp add: resolve_def)
qed

section \<open>Claims about the symlink classifier\<close>

text \<open>
  Claim C1. The classifier answers "applied" exactly when the project path is a symbolic
  link (seen without following it), the link's text, joined to the link's directory when
  it is relative and made absolute, is the absolute form of the global path, and
  following the link reaches an existing node. In every other case it answers
  "not applied".
\<close>

theorem classifier_applied_iff:
  "fst (isAppliedSymlink fs projectPath globalPath) \<longleftrightarrow>
     (\<exists>t a nd. os_Lstat fs projectPath = Inr (SymlinkNode t) \<and>
        filepath_Abs fs (if \<not> filepath_IsAbs t
                         then filepath_Join [filepath_Dir projectPath, t] else t) = Inr a \<and>
        filepath_Abs fs globalPath = Inr a \<and>
        os_Stat fs projectPath = Inr nd)"
proof (cases "\<exists>t. os_Lstat fs projectPath = Inr (SymlinkNode t)")
  case False
  then show ?thesis by (simp add: isAppliedSymlink_nolink)
next
  case True
  then obtain t where t: "os_Lstat fs projectPath = Inr (SymlinkNode t)" ..
  define tgt where "tgt = (if \<not> filepath_IsAbs t
                           then filepath_Join [filepath_Dir projectPath, t] else t)"
  note eq = isAppliedSymlink_link [OF t tgt_def, of globalPath]
  have "fst (isAppliedSymlink fs projectPath globalPath) \<longleftrightarrow>
        (\<exists>a nd. filepath_Abs fs tgt = Inr a \<and> filepath_Abs fs globalPath = Inr a \<and>
                 os_Stat fs projectPath = Inr nd)"
  proof (cases "filepath_Abs fs tgt")
    case (Inl e)
    with eq show ?thesis by simp
  next
    case a: (Inr a)
    show ?thesis
    proof (cases "filepath_Abs fs globalPath")
      case (Inl e)
      with eq a show ?thesis by simp
    next
      case b: (Inr b)
      show ?thesis
      proof (cases "os_Stat fs projectPath")
        case (Inl e)
        with eq a b show ?thesis by simp
      next
        case (Inr nd)
        with eq a b show ?thesis by simp
      qed
    qed
  qed
  with t show ?thesis unfolding tgt_def by simp
qed

text \<open>On the example disk, \<open>a.md\<close> is applied and \<open>d.md\<close> is not.\<close>

theorem classifier_applied_iff_witness:
  "fst (isAppliedSymlink disk_demo ''/p/.claude/agents/a.md'' ''/g/agents/a.md'') \<and>
   os_Lstat disk_demo ''/p/.claude/agents/a.md'' = Inr (SymlinkNode ''/g/agents/a.md'') \<and>
   filepath_Abs disk_demo ''/g/agents/a.md'' = Inr ''/g/agents/a.md'' \<and>
   os_Stat disk_demo ''/p/.claude/agents/a.md'' = Inr FileNode \<and>
   \<not> fst (isAppliedSymlink disk_demo ''/p/.claude/agents/d.md'' ''/g/agents/d.md'')"
proof -
  have 1: "os_Lstat disk_demo ''/p/.claude/agents/a.md'' = Inr (SymlinkNode ''/g/agents/a.md'')"
    by code_simp
  have 2: "filepath_Abs disk_demo ''/g/agents/a.md'' = Inr ''/g/agents/a.md''"
    by code_simp
  have 3: "os_Stat disk_demo ''/p/.claude/agents/a.md'' = Inr FileNode"
    by code_simp
  have 4: "filepath_IsAbs ''/g/agents/a.md''" by code_simp
  have "\<exists>t a nd. os_Lstat disk_demo ''/p/.claude/agents/a.md'' = Inr (SymlinkNode t) \<and>
        filepath_Abs disk_demo (if \<not> filepath_IsAbs t
            then filepath_Join [filepath_Dir ''/p/.claude/agents/a.md'', t] else t) = Inr a \<and>
        filepath_Abs disk_demo ''/g/agents/a.md'' = Inr a \<and>
        os_Stat disk_demo ''/p/.claude/agents/a.md'' = Inr nd"
    using 1 2 3 4 by (intro exI [of _ "''/g/agents/a.md''"] exI [of _ FileNode]) simp
  then have "fst (isAppliedSymlink disk_demo ''/p/.claude/agents/a.md'' ''/g/agents/a.md'')"
    by (simp only: classifier_applied_iff)
  moreover have "\<not> fst (isAppliedSymlink disk_demo ''/p/.claude/agents/d.md'' ''/g/agents/d.md'')"
    by code_simp
  ultimately show ?thesis using 1 2 3 by simp
qed

text \<open>
  Claim C3. A classification leaves the working directory and the write permissions as
  they are, and every location whose node differs afterwards is the location of the
  project path itself: it held a symbolic link whose absolute text equals the absolute
  global path, following it failed, and the location is empty afterwards. So a link with
  another text is never deleted, whether or not what it points to exists.
\<close>

theorem classifier_deletes_only_matching_broken_link:
  "cwd (snd (isAppliedSymlink fs projectPath globalPath)) = cwd fs \<and>
   nowrite (snd (isAppliedSymlink fs projectPath globalPath)) = nowrite fs \<and>
   (\<forall>k. node_at (snd (isAppliedSymlink fs projectPath globalPath)) k \<noteq> node_at fs k \<longrightarrow>
      resolve fs False projectPath = Inr k \<and>
      node_at (snd (isAppliedSymlink fs projectPath globalPath)) k = None \<and>
      (\<exists>t a e. node_at fs k = Some (SymlinkNode t) \<and>
         filepath_Abs fs (if \<not> filepath_IsAbs t
                          then filepath_Join [filepath_Dir projectPath, t] else t) = Inr a \<and>
         filepath_Abs fs globalPath = Inr a \<and>
         os_Stat fs projectPath = Inl e))"
proof -
  let ?fs' = "snd (isAppliedSymlink fs projectPath globalPath)"
  consider (same) "?fs' = fs"
    | (del) loc t a e where "resolve fs False projectPath = Inr loc"
        "node_at fs loc = Some (SymlinkNode t)"
        "filepath_Abs fs (if \<not> filepath_IsAbs t
                          then filepath_Join [filepath_Dir projectPath, t] else t) = Inr a"
        "filepath_Abs fs globalPath = Inr a" "os_Stat fs projectPath = Inl e"
        "?fs' = delete_node fs loc"
  proof (cases "\<exists>t. os_Lstat fs projectPath = Inr (SymlinkNode t)")
    case False
    then have "?fs' = fs" by (simp add: isAppliedSymlink_nolink)
    then show ?thesis by (rule same)
  next
    case True
    then obtain t where t: "os_Lstat fs projectPath = Inr (SymlinkNode t)" ..
    then obtain loc where loc: "resolve fs False projectPath = Inr loc"
      "node_at fs loc = Some (SymlinkNode t)"
      by (auto simp: lstat_resolve)
    define tgt where "tgt = (if \<not> filepath_IsAbs t
                             then filepath_Join [filepath_Dir projectPath, t] else t)"
    show ?thesis
    proof (cases "\<exists>a. filepath_Abs fs tgt = Inr a \<and> filepath_Abs fs globalPath = Inr a")
      case False
      then have "?fs' = fs" by (simp add: isAppliedSymlink_mismatch [OF t tgt_def])
      then show ?thesis by (rule same)
    next
      case True
      then obtain a where a: "filepath_Abs fs tgt = Inr a" "filepath_Abs fs globalPath = Inr a"
        by blast
      show ?thesis
      proof (cases "os_Stat fs projectPath")
        case (Inr nd)
        then have "?fs' = fs" by (simp add: isAppliedSymlink_intact [OF t tgt_def a])
        then show ?thesis by (rule same)
      next
        case (Inl e)
        note br = isAppliedSymlink_broken [OF t tgt_def a Inl]
        show ?thesis
        proof (cases "butlast loc \<in> set (nowrite fs)")
          case True
          then have "?fs' = fs" by (simp add: br remove_symlink [OF loc])
          then show ?thesis by (rule same)
        next
          case False
          then have "?fs' = delete_node fs loc" by (simp add: br remove_symlink [OF loc])
          with loc a Inl show ?thesis unfolding tgt_def by (rule del)
        qed
      qed
    qed
  qed
  then show ?thesis
  proof cases
    case same
    then show ?thesis by simp
  next
    case del
    have "cwd ?fs' = cwd fs" "nowrite ?fs' = nowrite fs"
      by (simp_all add: del(6) delete_node_def)
    moreover have "resolve fs False projectPath = Inr k \<and> node_at ?fs' k = None \<and>
      (\<exists>t a e. node_at fs k = Some (SymlinkNode t) \<and>
         filepath_Abs fs (if \<not> filepath_IsAbs t
                          then filepath_Join [filepath_Dir projectPath, t] else t) = Inr a \<and>
         filepath_Abs fs globalPath = Inr a \<and>
         os_Stat fs projectPath = Inl e)" if "node_at ?fs' k \<noteq> node_at fs k" for k
    proof -
      from that have k: "k = loc" "k \<noteq> []"
        by (auto simp: del(6) node_at_delete_node split: if_splits)
      then have "node_at ?fs' k = None" by (simp add: del(6) node_at_delete_node)
      with k del(1-5) show ?thesis by blast
    qed
    ultimately show ?thesis by blast
  qed
qed

text \<open>On the example disk, classifying \<open>b.md\<close> changes the location of that link, which is broken.\<close>

theorem classifier_deletes_only_matching_broken_link_witness:
  "node_at (snd (isAppliedSymlink disk_demo ''/p/.claude/agents/b.md'' ''/g/agents/b.md''))
     [''p'', ''.claude'', ''agents'', ''b.md''] \<noteq>
   node_at disk_demo [''p'', ''.claude'', ''agents'', ''b.md''] \<and>
   resolve disk_demo False ''/p/.claude/agents/b.md'' = Inr [''p'', ''.claude'', ''agents'', ''b.md''] \<and>
   (\<exists>e. os_Stat disk_demo ''/p/.claude/agents/b.md'' = Inl e)"
proof -
  have "node_at (snd (isAppliedSymlink disk_demo ''/p/.claude/agents/b.md'' ''/g/agents/b.md''))
     [''p'', ''.claude'', ''agents'', ''b.md''] \<noteq>
   node_at disk_demo [''p'', ''.claude'', ''agents'', ''b.md'']"
    by code_simp
  with classifier_deletes_only_matching_broken_link
         [of disk_demo "''/p/.claude/agents/b.md''" "''/g/agents/b.md''"]
  show ?thesis by blast
qed

text \<open>
  Claim C4. For a link that matches the global path and is broken, the classifier answers
  "not applied"; when the deletion succeeds the disk afterwards is the one the deletion
  leaves, and there \<open>Lstat\<close> of the project path finds nothing; when the deletion
  fails, the failure is dropped, the answer is still "not applied" and the disk is as
  before.
\<close>

theorem classifier_self_healing:
  assumes "os_Lstat fs projectPath = Inr (SymlinkNode t)"
    and "filepath_Abs fs (if \<not> filepath_IsAbs t
                          then filepath_Join [filepath_Dir projectPath, t] else t) = Inr a"
    and "filepath_Abs fs globalPath = Inr a"
    and "os_Stat fs projectPath = Inl e"
  shows "\<not> fst (isAppliedSymlink fs projectPath globalPath) \<and>
         (\<forall>fs'. os_Remove fs projectPath = Inr fs' \<longrightarrow>
            snd (isAppliedSymlink fs projectPath globalPath) = fs' \<and>
            os_Lstat fs' projectPath = Inl (PathError ''lstat'' projectPath ENOENT)) \<and>
         (\<forall>e'. os_Remove fs projectPath = Inl e' \<longrightarrow>
            snd (isAppliedSymlink fs projectPath globalPath) = fs)"
proof -
  note br = isAppliedSymlink_broken [OF assms(1) refl assms(2,3,4)]
  from assms(1) obtain loc where loc: "resolve fs False projectPath = Inr loc"
    "node_at fs loc = Some (SymlinkNode t)"
    by (auto simp: lstat_resolve)
  have "os_Lstat fs' projectPath = Inl (PathError ''lstat'' projectPath ENOENT)"
    if "os_Remove fs projectPath = Inr fs'" for fs'
  proof -
    from that have "fs' = delete_node fs loc"
      by (simp add: remove_symlink [OF loc] split: if_splits)
    then show ?thesis
      by (simp add: os_Lstat_def resolve_delete_node [OF loc])
  qed
  then show ?thesis by (auto simp: br)
qed

text \<open>
  On the example disk the broken link \<open>b.md\<close> is removed; on the disk whose project
  directory is write-protected it stays, and the answer is the same.
\<close>

theorem classifier_self_healing_witness:
  "os_Lstat disk_demo ''/p/.claude/agents/b.md'' = Inr (SymlinkNode ''../../../g/agents/b.md'') \<and>
   filepath_Abs disk_demo ''/g/agents/b.md'' = Inr ''/g/agents/b.md'' \<and>
   os_Stat disk_demo ''/p/.claude/agents/b.md'' = Inl (PathError ''stat'' ''/p/.claude/agents/b.md'' ENOENT) \<and>
   os_Remove disk_demo ''/p/.claude/agents/b.md'' =
     Inr (delete_node disk_demo [''p'', ''.claude'', ''agents'', ''b.md'']) \<and>
   isAppliedSymlink disk_demo ''/p/.claude/agents/b.md'' ''/g/agents/b.md'' =
     (False, delete_node disk_demo [''p'', ''.claude'', ''agents'', ''b.md'']) \<and>
   os_Lstat (delete_node disk_demo [''p'', ''.claude'', ''agents'', ''b.md'']) ''/p/.claude/agents/b.md'' =
     Inl (PathError ''lstat'' ''/p/.claude/agents/b.md'' ENOENT) \<and>
   os_Remove disk_locked ''/p/.claude/agents/b.md'' =
     Inl (PathError ''remove'' ''/p/.claude/agents/b.md'' EACCES) \<and>
   isAppliedSymlink disk_locked ''/p/.claude/agents/b.md'' ''/g/agents/b.md'' = (False, disk_locked)"
proof -
  have l: "os_Lstat disk_demo ''/p/.claude/agents/b.md'' = Inr (SymlinkNode ''../../../g/agents/b.md'')"
    by code_simp
  have t: "filepath_Abs disk_demo (if \<not> filepath_IsAbs ''../../../g/agents/b.md''
             then filepath_Join [filepath_Dir ''/p/.claude/agents/b.md'', ''../../../g/agents/b.md'']
             else ''../../../g/agents/b.md'') = Inr ''/g/agents/b.md''"
    by code_simp
  have g: "filepath_Abs disk_demo ''/g/agents/b.md'' = Inr ''/g/agents/b.md''"
    by code_simp
  have s: "os_Stat disk_demo ''/p/.claude/agents/b.md'' =
             Inl (PathError ''stat'' ''/p/.claude/agents/b.md'' ENOENT)"
    by code_simp
  have r: "os_Remove disk_demo ''/p/.claude/agents/b.md'' =
             Inr (delete_node disk_demo [''p'', ''.claude'', ''agents'', ''b.md''])"
    by code_simp
  have l': "os_Lstat disk_locked ''/p/.claude/agents/b.md'' = Inr (SymlinkNode ''../../../g/agents/b.md'')"
    by code_simp
  have t': "filepath_Abs disk_locked (if \<not> filepath_IsAbs ''../../../g/agents/b.md''
             then filepath_Join [filepath_Dir ''/p/.claude/agents/b.md'', ''../../../g/agents/b.md'']
             else ''../../../g/agents/b.md'') = Inr ''/g/agents/b.md''"
    by code_simp
  have g': "filepath_Abs disk_locked ''/g/agents/b.md'' = Inr ''/g/agents/b.md''"
    by code_simp
  have s': "os_Stat disk_locked ''/p/.claude/agents/b.md'' =
             Inl (PathError ''stat'' ''/p/.claude/agents/b.md'' ENOENT)"
    by code_simp
  have r': "os_Remove disk_locked ''/p/.claude/agents/b.md'' =
             Inl (PathError ''remove'' ''/p/.claude/agents/b.md'' EACCES)"
    by code_simp
  from classifier_self_healing [OF l t g s] r
  have A: "isAppliedSymlink disk_demo ''/p/.claude/agents/b.md'' ''/g/agents/b.md'' =
            (False, delete_node disk_demo [''p'', ''.claude'', ''agents'', ''b.md''])"
    "os_Lstat (delete_node disk_demo [''p'', ''.claude'', ''agents'', ''b.md'']) ''/p/.claude/agents/b.md'' =
       Inl (PathError ''lstat'' ''/p/.claude/agents/b.md'' ENOENT)"
    by (simp_all add: prod_eq_iff)
  from classifier_self_healing [OF l' t' g' s'] r'
  have B: "isAppliedSymlink disk_locked ''/p/.claude/agents/b.md'' ''/g/agents/b.md'' = (False, disk_locked)"
    by (simp add: prod_eq_iff)
  from l g s r r' A B show ?thesis by blast
qed

text \<open>
  Claim C10. The two paths the classifier compares are computed from the strings alone:
  an absolute one is cleaned, a relative one is joined to the name of the working
  directory, and no link on the way is resolved. Whenever the two do not come out as
  the same string, the answer is "not applied" and the disk is untouched, also for a
  link that reaches the very file that the global path names.
\<close>

theorem classifier_comparison_is_lexical:
  assumes "os_Lstat fs projectPath = Inr (SymlinkNode t)"
    and "tgt = (if \<not> filepath_IsAbs t then filepath_Join [filepath_Dir projectPath, t] else t)"
  shows "filepath_Abs fs tgt =
           (if filepath_IsAbs tgt then Inr (filepath_Clean tgt)
            else map_sum id (\<lambda>wd. filepath_Join [wd, tgt]) (os_Getwd fs)) \<and>
         filepath_Abs fs globalPath =
           (if filepath_IsAbs globalPath then Inr (filepath_Clean globalPath)
            else map_sum id (\<lambda>wd. filepath_Join [wd, globalPath]) (os_Getwd fs)) \<and>
         (\<not> (\<exists>a. filepath_Abs fs tgt = Inr a \<and> filepath_Abs fs globalPath = Inr a) \<longrightarrow>
            isAppliedSymlink fs projectPath globalPath = (False, fs))"
proof -
  have "filepath_Abs fs p =
           (if filepath_IsAbs p then Inr (filepath_Clean p)
            else map_sum id (\<lambda>wd. filepath_Join [wd, p]) (os_Getwd fs))" for p
    by (cases "os_Getwd fs") (simp_all add: filepath_Abs_def)
  then show ?thesis
    using isAppliedSymlink_mismatch [OF assms] by blast
qed

text \<open>
  On the example disk, \<open>c.md\<close> is a link that reaches \<open>/g/agents/c.md\<close> under the
  name \<open>/store/agents/c.md\<close>; it is not applied.
\<close>

theorem classifier_comparison_is_lexical_witness:
  "os_Lstat disk_demo ''/p/.claude/agents/c.md'' = Inr (SymlinkNode ''/store/agents/c.md'') \<and>
   resolve disk_demo True ''/p/.claude/agents/c.md'' = Inr [''g'', ''agents'', ''c.md''] \<and>
   resolve disk_demo True ''/g/agents/c.md'' = Inr [''g'', ''agents'', ''c.md''] \<and>
   filepath_Abs disk_demo ''/store/agents/c.md'' = Inr ''/store/agents/c.md'' \<and>
   filepath_Abs disk_demo ''/g/agents/c.md'' = Inr ''/g/agents/c.md'' \<and>
   isAppliedSymlink disk_demo ''/p/.claude/agents/c.md'' ''/g/agents/c.md'' = (False, disk_demo)"
proof -
  have l: "os_Lstat disk_demo ''/p/.claude/agents/c.md'' = Inr (SymlinkNode ''/store/agents/c.md'')"
    by code_simp
  have tg: "''/store/agents/c.md'' = (if \<not> filepath_IsAbs ''/store/agents/c.md''
             then filepath_Join [filepath_Dir ''/p/.claude/agents/c.md'', ''/store/agents/c.md'']
             else ''/store/agents/c.md'')"
    by code_simp
  have a: "filepath_Abs disk_demo ''/store/agents/c.md'' = Inr ''/store/agents/c.md''"
    by code_simp
  have b: "filepath_Abs disk_demo ''/g/agents/c.md'' = Inr ''/g/agents/c.md''"
    by code_simp
  have r1: "resolve disk_demo True ''/p/.claude/agents/c.md'' = Inr [''g'', ''agents'', ''c.md'']"
    by code_simp
  have r2: "resolve disk_demo True ''/g/agents/c.md'' = Inr [''g'', ''agents'', ''c.md'']"
    by code_simp
  have ne: "\<not> (\<exists>x. filepath_Abs disk_demo ''/store/agents/c.md'' = Inr x \<and>
                    filepath_Abs disk_demo ''/g/agents/c.md'' = Inr x)"
    unfolding a b by simp
  from classifier_comparison_is_lexical [OF l tg, of "''/g/agents/c.md''"] ne
  have "isAppliedSymlink disk_demo ''/p/.claude/agents/c.md'' ''/g/agents/c.md'' = (False, disk_demo)"
    by blast
  with l a b r1 r2 show ?thesis by blast
qed

section \<open>Listings, the catalog loop and category discovery\<close>

lemma readdir_names:
  assumes "os_ReadDir fs p = Inr entries"
  shows "distinct (map entName entries) \<and> sorted (map entName entries)"
proof -
  from assms obtain loc where
    "entries = map (\<lambda>nm. \<lparr>entName = nm, entIsDir = (node_at fs (loc @ [nm]) = Some DirNode)\<rparr>)
                   (child_names fs loc)"
    by (auto simp: os_ReadDir_def split: sum.splits option.splits node.splits)
  then have "map entName entries = child_names fs loc"
    by (simp add: comp_def)
  then show ?thesis by (simp add: child_names_def)
qed

lemma loadItems_loop_items:
  assumes "loadItems_loop cat es (av, ap, fs) = (av', ap', fs')"
  shows "set av' \<union> set ap' =
           set av \<union> set ap \<union>
           (\<lambda>e. \<lparr>item_Name = entName e, item_IsDir = entIsDir e,
                  item_GlobalPath = filepath_Join [cat_GlobalDir cat, entName e]\<rparr>) `
             {e \<in> set es. \<not> strings_HasPrefix (entName e) ''.''}"
  using assms
proof (induction es arbitrary: av ap fs)
  case Nil
  then show ?case by simp
next
  case (Cons e es)
  show ?case
  proof (cases "strings_HasPrefix (entName e) ''.''")
    case True
    with Cons.prems have "loadItems_loop cat es (av, ap, fs) = (av', ap', fs')" by simp
    from Cons.IH [OF this] True show ?thesis by (auto simp del: filepath_Join.simps)
  next
    case False
    let ?item = "\<lparr>item_Name = entName e, item_IsDir = entIsDir e,
                  item_GlobalPath = filepath_Join [cat_GlobalDir cat, entName e]\<rparr>"
    let ?r = "isAppliedSymlink fs (filepath_Join [cat_ProjectDir cat, entName e])
                (filepath_Join [cat_GlobalDir cat, entName e])"
    show ?thesis
    proof (cases "fst ?r")
      case True
      with False Cons.prems
      have "loadItems_loop cat es (av, ap @ [?item], snd ?r) = (av', ap', fs')"
        by (simp add: Let_def del: filepath_Join.simps)
      from Cons.IH [OF this] False show ?thesis by (auto simp del: filepath_Join.simps)
    next
      case nf: False
      with False Cons.prems
      have "loadItems_loop cat es (av @ [?item], ap, snd ?r) = (av', ap', fs')"
        by (simp add: Let_def del: filepath_Join.simps)
      from Cons.IH [OF this] False show ?thesis by (auto simp del: filepath_Join.simps)
    qed
  qed
qed

lemma loadItems_loop_names:
  assumes "loadItems_loop cat es (av, ap, fs) = (av', ap', fs')"
    and "distinct (map entName es)"
    and "distinct (map item_Name (av @ ap))"
    and "item_Name ` (set av \<union> set ap) \<inter> entName ` set es = {}"
  shows "distinct (map item_Name (av' @ ap'))"
  using assms
proof (induction es arbitrary: av ap fs)
  case Nil
  then show ?case by simp
next
  case (Cons e es)
  show ?case
  proof (cases "strings_HasPrefix (entName e) ''.''")
    case True
    with Cons.prems(1) have l: "loadItems_loop cat es (av, ap, fs) = (av', ap', fs')" by simp
    from Cons.prems(2-) show ?thesis by (intro Cons.IH [OF l]) (auto simp del: filepath_Join.simps)
  next
    case False
    let ?item = "\<lparr>item_Name = entName e, item_IsDir = entIsDir e,
                  item_GlobalPath = filepath_Join [cat_GlobalDir cat, entName e]\<rparr>"
    let ?r = "isAppliedSymlink fs (filepath_Join [cat_ProjectDir cat, entName e])
                (filepath_Join [cat_GlobalDir cat, entName e])"
    show ?thesis
    proof (cases "fst ?r")
      case True
      with False Cons.prems(1)
      have l: "loadItems_loop cat es (av, ap @ [?item], snd ?r) = (av', ap', fs')"
        by (simp add: Let_def del: filepath_Join.simps)
      from Cons.prems(2-) show ?thesis by (intro Cons.IH [OF l]) (auto simp del: filepath_Join.simps)
    next
      case nf: False
      with False Cons.prems(1)
      have l: "loadItems_loop cat es (av @ [?item], ap, snd ?r) = (av', ap', fs')"
        by (simp add: Let_def del: filepath_Join.simps)
      from Cons.prems(2-) show ?thesis by (intro Cons.IH [OF l]) (auto simp del: filepath_Join.simps)
    qed
  qed
qed

lemma distinct_map_sort_key:
  "distinct (map f (sort_key f xs)) = distinct (map f xs)"
  by (simp add: distinct_map)

lemma loadCategories_loop_set:
  "set (loadCategories_loop a es cats) =
     set cats \<union>
     (\<lambda>e. \<lparr>cat_Name = entName e,
            cat_GlobalDir = filepath_Join [globalRoot a, entName e],
            cat_ProjectDir = filepath_Join [projectRoot a, ''.claude'', entName e]\<rparr>) `
       {e \<in> set es. entIsDir e \<and> \<not> strings_HasPrefix (entName e) ''.''}"
  by (induction es arbitrary: cats) (auto simp del: filepath_Join.simps)

lemma loadCategories_loop_names:
  "map cat_Name (loadCategories_loop a es cats) =
     map cat_Name cats @
     filter (\<lambda>n. \<not> strings_HasPrefix n ''.'')
       (map entName (filter entIsDir es))"
  by (induction es arbitrary: cats) (auto simp del: filepath_Join.simps)

section \<open>Claims about the catalog\<close>

text \<open>
  Claim C2. When the global directory of the active category can be listed, a refresh
  returns, and the two lists together hold exactly the items of the non-hidden entries of
  that listing; each such item is in exactly one of the two lists, no name occurs twice,
  and each list is sorted by name.
\<close>

theorem catalog_partition:
  assumes "index_at (categories a) (activeTabIdx a) = Inr cat"
    and "os_ReadDir fs (cat_GlobalDir cat) = Inr entries"
  shows "\<exists>a' fs'. loadItems a fs = Inr (a', fs') \<and>
      set (availableItems a') \<union> set (appliedItems a') =
        (\<lambda>e. \<lparr>item_Name = entName e, item_IsDir = entIsDir e,
               item_GlobalPath = filepath_Join [cat_GlobalDir cat, entName e]\<rparr>) `
          {e \<in> set entries. \<not> strings_HasPrefix (entName e) ''.''} \<and>
      (\<forall>e \<in> set entries. \<not> strings_HasPrefix (entName e) ''.'' \<longrightarrow>
         (\<lparr>item_Name = entName e, item_IsDir = entIsDir e,
           item_GlobalPath = filepath_Join [cat_GlobalDir cat, entName e]\<rparr>
            \<in> set (availableItems a')) \<noteq>
         (\<lparr>item_Name = entName e, item_IsDir = entIsDir e,
           item_GlobalPath = filepath_Join [cat_GlobalDir cat, entName e]\<rparr>
            \<in> set (appliedItems a'))) \<and>
      distinct (map item_Name (availableItems a' @ appliedItems a')) \<and>
      sorted (map item_Name (availableItems a')) \<and>
      sorted (map item_Name (appliedItems a'))"
proof -
  obtain av ap fs' where l: "loadItems_loop cat entries ([], [], fs) = (av, ap, fs')"
    by (cases "loadItems_loop cat entries ([], [], fs)") auto
  let ?a' = "a\<lparr>availableItems := sort_key item_Name av, appliedItems := sort_key item_Name ap\<rparr>"
  from assms l have r: "loadItems a fs = Inr (?a', fs')"
    by (simp add: loadItems_def)
  from readdir_names [OF assms(2)] have d: "distinct (map entName entries)" by simp
  have 1: "set (availableItems ?a') \<union> set (appliedItems ?a') =
        (\<lambda>e. \<lparr>item_Name = entName e, item_IsDir = entIsDir e,
               item_GlobalPath = filepath_Join [cat_GlobalDir cat, entName e]\<rparr>) `
          {e \<in> set entries. \<not> strings_HasPrefix (entName e) ''.''}"
    using loadItems_loop_items [OF l] by simp
  have "distinct (map item_Name (av @ ap))"
    using loadItems_loop_names [OF l d] by simp
  then have 2: "distinct (map item_Name (availableItems ?a' @ appliedItems ?a'))"
    by (simp add: distinct_map_sort_key)
  have 3: "sorted (map item_Name (availableItems ?a'))" "sorted (map item_Name (appliedItems ?a'))"
    by simp_all
  have 4: "(\<lparr>item_Name = entName e, item_IsDir = entIsDir e,
              item_GlobalPath = filepath_Join [cat_GlobalDir cat, entName e]\<rparr>
               \<in> set (availableItems ?a')) \<noteq>
            (\<lparr>item_Name = entName e, item_IsDir = entIsDir e,
              item_GlobalPath = filepath_Join [cat_GlobalDir cat, entName e]\<rparr>
               \<in> set (appliedItems ?a'))"
    if "e \<in> set entries" "\<not> strings_HasPrefix (entName e) ''.''" for e
  proof -
    let ?i = "\<lparr>item_Name = entName e, item_IsDir = entIsDir e,
              item_GlobalPath = filepath_Join [cat_GlobalDir cat, entName e]\<rparr>"
    from that 1 have "?i \<in> set (availableItems ?a') \<union> set (appliedItems ?a')" by blast
    moreover from 2 have "item_Name ` set (availableItems ?a') \<inter> item_Name ` set (appliedItems ?a') = {}"
      by simp
    ultimately show ?thesis by blast
  qed
  from r 1 2 3 4 show ?thesis by blast
qed

text \<open>
  On the example disk the listing of \<open>/g/agents\<close> has three entries, and the refresh
  of the first category returns.
\<close>

theorem catalog_partition_witness:
  "index_at (categories app_demo) (activeTabIdx app_demo) = Inr cat_agents \<and>
   os_ReadDir disk_demo (cat_GlobalDir cat_agents) =
     Inr [\<lparr>entName = ''a.md'', entIsDir = False\<rparr>, \<lparr>entName = ''c.md'', entIsDir = False\<rparr>,
          \<lparr>entName = ''d.md'', entIsDir = False\<rparr>] \<and>
   (\<exists>a' fs'. loadItems app_demo disk_demo = Inr (a', fs') \<and>
      distinct (map item_Name (availableItems a' @ appliedItems a')) \<and>
      sorted (map item_Name (availableItems a')) \<and>
      sorted (map item_Name (appliedItems a')))"
proof -
  have i: "index_at (categories app_demo) (activeTabIdx app_demo) = Inr cat_agents"
    by code_simp
  have r: "os_ReadDir disk_demo (cat_GlobalDir cat_agents) =
     Inr [\<lparr>entName = ''a.md'', entIsDir = False\<rparr>, \<lparr>entName = ''c.md'', entIsDir = False\<rparr>,
          \<lparr>entName = ''d.md'', entIsDir = False\<rparr>]"
    by code_simp
  from catalog_partition [OF i r] i r show ?thesis by blast
qed

text \<open>
  Claim C7. When the global directory of the active category cannot be listed,
  \<open>loadItems\<close> returns normally with both lists empty and the disk as it was, and
  so does the whole refresh.
\<close>

theorem catalog_unreadable_gives_empty_lists:
  assumes "index_at (categories a) (activeTabIdx a) = Inr cat"
    and "os_ReadDir fs (cat_GlobalDir cat) = Inl err"
  shows "loadItems a fs = Inr (a\<lparr>availableItems := [], appliedItems := []\<rparr>, fs) \<and>
         (\<exists>a'. refreshAll a fs = Inr (a', fs) \<and> availableItems a' = [] \<and> appliedItems a' = [])"
proof -
  from assms have l: "loadItems a fs = Inr (a\<lparr>availableItems := [], appliedItems := []\<rparr>, fs)"
    by (simp add: loadItems_def)
  then have "\<exists>a'. refreshAll a fs = Inr (a', fs) \<and> availableItems a' = [] \<and> appliedItems a' = []"
    by (simp add: refreshAll_def refreshAvailableList_def refreshAppliedList_def
                  updateStatusBar_def Let_def)
  with l show ?thesis by simp
qed

text \<open>
  On the example disk the directory of the category \<open>skills\<close> does not exist.
\<close>

theorem catalog_unreadable_gives_empty_lists_witness:
  "index_at (categories (app_demo\<lparr>activeTabIdx := 1\<rparr>)) (activeTabIdx (app_demo\<lparr>activeTabIdx := 1\<rparr>)) =
     Inr cat_skills \<and>
   os_ReadDir disk_demo (cat_GlobalDir cat_skills) = Inl (PathError ''open'' ''/g/skills'' ENOENT) \<and>
   loadItems (app_demo\<lparr>activeTabIdx := 1\<rparr>) disk_demo =
     Inr (app_demo\<lparr>activeTabIdx := 1, availableItems := [], appliedItems := []\<rparr>, disk_demo)"
proof -
  have i: "index_at (categories (app_demo\<lparr>activeTabIdx := 1\<rparr>))
             (activeTabIdx (app_demo\<lparr>activeTabIdx := 1\<rparr>)) = Inr cat_skills"
    by code_simp
  have r: "os_ReadDir disk_demo (cat_GlobalDir cat_skills) = Inl (PathError ''open'' ''/g/skills'' ENOENT)"
    by code_simp
  from catalog_unreadable_gives_empty_lists [OF i r] i r show ?thesis by simp
qed

section \<open>Joining in two steps\<close>

text \<open>
  \<open>filepath.Clean\<close> returns a path whose elements are not empty, not \<open>.\<close> and free
  of separators, with \<open>..\<close> only in front and never in a rooted path. Cleaning such
  a path again changes nothing, so joining a further element to a cleaned path is the
  same as joining it to the path as it was.
\<close>

lemma split_slash_nonempty: "split_slash p \<noteq> []"
  by (induction p) (auto split: list.splits)

lemma split_slash_append:
  "split_slash (a @ CHR ''/'' # b) = split_slash a @ split_slash b"
  using split_slash_nonempty by (induction a) (auto split: list.splits)

lemma split_slash_no_slash: "c \<in> set (split_slash p) \<Longrightarrow> CHR ''/'' \<notin> set c"
  by (induction p arbitrary: c) (auto split: list.splits if_splits)

lemma split_slash_id: "CHR ''/'' \<notin> set c \<Longrightarrow> split_slash c = [c]"
  by (induction c) auto

lemma split_join_slash:
  "xs \<noteq> [] \<Longrightarrow> \<forall>c \<in> set xs. CHR ''/'' \<notin> set c \<Longrightarrow> split_slash (join_slash xs) = xs"
proof (induction xs rule: join_slash.induct)
  case 1
  then show ?case by simp
next
  case (2 x)
  then show ?case by (simp add: split_slash_id)
next
  case (3 x y ys)
  then show ?case by (simp add: split_slash_append split_slash_id)
qed

lemma clean_elems_append:
  "clean_elems rooted out (xs @ ys) = clean_elems rooted (clean_elems rooted out xs) ys"
  by (induction xs arbitrary: out) auto


lemma dropWhile_butlast_subset:
  "set (dropWhile P (butlast xs)) \<subseteq> set (dropWhile P xs)"
  by (induction xs) (auto dest: in_set_butlastD)

lemma clean_elems_fixed:
  assumes "\<forall>c \<in> set (acc @ o'). c \<noteq> [] \<and> c \<noteq> ''.''"
    and "rooted \<longrightarrow> ''..'' \<notin> set (acc @ o')"
    and "''..'' \<notin> set (dropWhile (\<lambda>c. c = ''..'') (acc @ o'))"
  shows "clean_elems rooted acc o' = acc @ o'"
  using assms
proof (induction o' arbitrary: acc)
  case Nil
  then show ?case by simp
next
  case (Cons c cs)
  have ne: "c \<noteq> []" "c \<noteq> ''.''" using Cons.prems(1) by auto
  have IH: "clean_elems rooted (acc @ [c]) cs = (acc @ [c]) @ cs"
    using Cons.prems by (intro Cons.IH) simp_all
  show ?case
  proof (cases "c = ''..''")
    case False
    with ne IH show ?thesis by simp
  next
    case True
    have nr: "\<not> rooted" using Cons.prems(2) True by auto
    have all: "\<forall>x \<in> set acc. x = ''..''"
    proof (rule ccontr)
      assume "\<not> (\<forall>x \<in> set acc. x = ''..'')"
      then have "dropWhile (\<lambda>c. c = ''..'') (acc @ c # cs) = dropWhile (\<lambda>c. c = ''..'') acc @ c # cs"
        by (auto simp: dropWhile_append)
      with Cons.prems(3) True show False by simp
    qed
    then have "acc = [] \<or> last acc = ''..''"
      using last_in_set by blast
    with ne True nr IH show ?thesis by auto
  qed
qed

lemma last_dropWhile_keep: "dropWhile P xs \<noteq> [] \<Longrightarrow> last (dropWhile P xs) = last xs"
  by (induction xs) auto

lemma clean_elems_shape:
  assumes "\<forall>c \<in> set cs. CHR ''/'' \<notin> set c"
    and "\<forall>c \<in> set out. c \<noteq> [] \<and> c \<noteq> ''.'' \<and> CHR ''/'' \<notin> set c"
    and "rooted \<longrightarrow> ''..'' \<notin> set out"
    and "''..'' \<notin> set (dropWhile (\<lambda>c. c = ''..'') out)"
  shows "(\<forall>c \<in> set (clean_elems rooted out cs). c \<noteq> [] \<and> c \<noteq> ''.'' \<and> CHR ''/'' \<notin> set c) \<and>
         (rooted \<longrightarrow> ''..'' \<notin> set (clean_elems rooted out cs)) \<and>
         ''..'' \<notin> set (dropWhile (\<lambda>c. c = ''..'') (clean_elems rooted out cs))"
  using assms
proof (induction cs arbitrary: out)
  case Nil
  then show ?case by simp
next
  case (Cons c cs)
  have cs: "\<forall>c \<in> set cs. CHR ''/'' \<notin> set c" using Cons.prems(1) by simp
  show ?case
  proof (cases "c = [] \<or> c = ''.''")
    case True
    with Cons.IH [OF cs Cons.prems(2,3,4)] show ?thesis by simp
  next
    case skip: False
    show ?thesis
    proof (cases "c = ''..''")
      case False
      have 2: "\<forall>x \<in> set (out @ [c]). x \<noteq> [] \<and> x \<noteq> ''.'' \<and> CHR ''/'' \<notin> set x"
        using Cons.prems(1,2) skip by auto
      have 3: "rooted \<longrightarrow> ''..'' \<notin> set (out @ [c])"
        using Cons.prems(3) False by auto
      have 4: "''..'' \<notin> set (dropWhile (\<lambda>c. c = ''..'') (out @ [c]))"
      proof (cases "\<forall>x \<in> set out. x = ''..''")
        case True
        then have "dropWhile (\<lambda>c. c = ''..'') (out @ [c]) = dropWhile (\<lambda>c. c = ''..'') [c]"
          by (intro dropWhile_append2) simp
        with False show ?thesis by simp
      next
        case nall: False
        then obtain x where "x \<in> set out" "x \<noteq> ''..''" by blast
        then have "dropWhile (\<lambda>c. c = ''..'') (out @ [c]) = dropWhile (\<lambda>c. c = ''..'') out @ [c]"
          by (intro dropWhile_append1) simp_all
        with Cons.prems(4) False show ?thesis by simp
      qed
      from Cons.IH [OF cs 2 3 4] skip False show ?thesis by simp
    next
      case dd: True
      show ?thesis
      proof (cases "out \<noteq> [] \<and> last out \<noteq> ''..''")
        case True
        have 2: "\<forall>x \<in> set (butlast out). x \<noteq> [] \<and> x \<noteq> ''.'' \<and> CHR ''/'' \<notin> set x"
          using Cons.prems(2) by (auto dest: in_set_butlastD)
        have 3: "rooted \<longrightarrow> ''..'' \<notin> set (butlast out)"
          using Cons.prems(3) by (auto dest: in_set_butlastD)
        have 4: "''..'' \<notin> set (dropWhile (\<lambda>c. c = ''..'') (butlast out))"
          using Cons.prems(4) dropWhile_butlast_subset [of "\<lambda>c. c = ''..''" out] by blast
        from Cons.IH [OF cs 2 3 4] skip dd True show ?thesis by simp
      next
        case nb: False
        show ?thesis
        proof (cases rooted)
          case True
          with Cons.IH [OF cs Cons.prems(2,3,4)] skip dd nb show ?thesis by auto
        next
          case nr: False
          have all: "\<forall>x \<in> set out. x = ''..''"
          proof (cases "out = []")
            case True
            then show ?thesis by simp
          next
            case False
            with nb have l: "last out = ''..''" by simp
            have "dropWhile (\<lambda>c. c = ''..'') out = []"
            proof (rule ccontr)
              assume ne: "dropWhile (\<lambda>c. c = ''..'') out \<noteq> []"
              then have "last (dropWhile (\<lambda>c. c = ''..'') out) = last out"
                by (rule last_dropWhile_keep)
              with l have "last (dropWhile (\<lambda>c. c = ''..'') out) = ''..''" by simp
              moreover from ne have "last (dropWhile (\<lambda>c. c = ''..'') out)
                                      \<in> set (dropWhile (\<lambda>c. c = ''..'') out)"
                by (rule last_in_set)
              ultimately show False using Cons.prems(4) by simp
            qed
            then show ?thesis by simp
          qed
          have 2: "\<forall>x \<in> set (out @ [''..'']). x \<noteq> [] \<and> x \<noteq> ''.'' \<and> CHR ''/'' \<notin> set x"
            using Cons.prems(2) by auto
          have 3: "rooted \<longrightarrow> ''..'' \<notin> set (out @ [''..''])" using nr by simp
          have 4: "''..'' \<notin> set (dropWhile (\<lambda>c. c = ''..'') (out @ [''..'']))"
            using all by simp
          from Cons.IH [OF cs 2 3 4] skip dd nb nr show ?thesis by auto
        qed
      qed
    qed
  qed
qed

lemma join_slash_nonempty: "o' \<noteq> [] \<Longrightarrow> hd o' \<noteq> [] \<Longrightarrow> join_slash o' \<noteq> []"
  by (induction o' rule: join_slash.induct) simp_all

lemma filepath_Clean_nonempty: "filepath_Clean p \<noteq> []"
proof (cases "p = [] \<or> filepath_IsAbs p \<or> clean_elems False [] (split_slash p) = []")
  case True
  then show ?thesis by (auto simp: filepath_Clean_def Let_def)
next
  case False
  let ?o = "clean_elems False [] (split_slash p)"
  have "(\<forall>c \<in> set ?o. c \<noteq> [] \<and> c \<noteq> ''.'' \<and> CHR ''/'' \<notin> set c) \<and>
        (False \<longrightarrow> ''..'' \<notin> set ?o) \<and>
        ''..'' \<notin> set (dropWhile (\<lambda>c. c = ''..'') ?o)"
    by (rule clean_elems_shape) (simp_all add: split_slash_no_slash)
  with False have "hd ?o \<noteq> []" by simp
  with False have "join_slash ?o \<noteq> []" by (intro join_slash_nonempty) simp_all
  with False show ?thesis by (simp add: filepath_Clean_def Let_def)
qed

lemma IsAbs_append: "x \<noteq> [] \<Longrightarrow> filepath_IsAbs (x @ y) = filepath_IsAbs x"
  by (cases x) (simp_all add: filepath_IsAbs_def strings_HasPrefix_def)

lemma IsAbs_join_slash:
  "o' \<noteq> [] \<Longrightarrow> hd o' \<noteq> [] \<Longrightarrow> CHR ''/'' \<notin> set (hd o') \<Longrightarrow> \<not> filepath_IsAbs (join_slash o')"
proof (induction o' rule: join_slash.induct)
  case 1
  then show ?case by simp
next
  case (2 x)
  then show ?case by (cases x) (auto simp: filepath_IsAbs_def strings_HasPrefix_def)
next
  case (3 x y ys)
  then show ?case by (cases x) (auto simp: filepath_IsAbs_def strings_HasPrefix_def)
qed

lemma clean_elems_of_Clean:
  assumes "x \<noteq> []" and "rooted = filepath_IsAbs x" and "o' = clean_elems rooted [] (split_slash x)"
  shows "filepath_IsAbs (filepath_Clean x) = rooted \<and>
         clean_elems rooted [] (split_slash (filepath_Clean x)) = o'"
proof -
  have sh: "(\<forall>c \<in> set o'. c \<noteq> [] \<and> c \<noteq> ''.'' \<and> CHR ''/'' \<notin> set c) \<and>
            (rooted \<longrightarrow> ''..'' \<notin> set o') \<and>
            ''..'' \<notin> set (dropWhile (\<lambda>c. c = ''..'') o')"
    unfolding assms(3)
    by (rule clean_elems_shape) (simp_all add: split_slash_no_slash)
  then have fx: "clean_elems rooted [] o' = o'"
    using clean_elems_fixed [of "[]" o' rooted] by simp
  have sp: "o' \<noteq> [] \<Longrightarrow> split_slash (join_slash o') = o'"
    using sh by (intro split_join_slash) simp_all
  show ?thesis
  proof (cases rooted)
    case True
    then have c: "filepath_Clean x = CHR ''/'' # join_slash o'"
      using assms by (simp add: filepath_Clean_def Let_def)
    have "clean_elems rooted [] (split_slash (CHR ''/'' # join_slash o')) = o'"
    proof (cases "o' = []")
      case True
      then show ?thesis by simp
    next
      case False
      with sp fx show ?thesis by simp
    qed
    with c True show ?thesis by (simp add: filepath_IsAbs_def strings_HasPrefix_def)
  next
    case nr: False
    show ?thesis
    proof (cases "o' = []")
      case True
      with nr have "filepath_Clean x = ''.''"
        using assms by (simp add: filepath_Clean_def Let_def)
      with True nr show ?thesis by (simp add: filepath_IsAbs_def strings_HasPrefix_def)
    next
      case False
      with nr have c: "filepath_Clean x = join_slash o'"
        using assms by (simp add: filepath_Clean_def Let_def)
      from False sh have "hd o' \<noteq> []" "CHR ''/'' \<notin> set (hd o')" by simp_all
      with False have "\<not> filepath_IsAbs (join_slash o')" by (intro IsAbs_join_slash)
      with c nr sp [OF False] fx show ?thesis by simp
    qed
  qed
qed

lemma Clean_Clean_append:
  assumes "x \<noteq> []"
  shows "filepath_Clean (filepath_Clean x @ CHR ''/'' # n) = filepath_Clean (x @ CHR ''/'' # n)"
proof -
  define rooted where "rooted = filepath_IsAbs x"
  define o' where "o' = clean_elems rooted [] (split_slash x)"
  note k = clean_elems_of_Clean [OF assms rooted_def o'_def]
  have y: "filepath_Clean x \<noteq> []" by (rule filepath_Clean_nonempty)
  have 1: "filepath_IsAbs (filepath_Clean x @ CHR ''/'' # n) = rooted"
    using k by (simp add: IsAbs_append [OF y])
  have 2: "filepath_IsAbs (x @ CHR ''/'' # n) = rooted"
    by (simp add: IsAbs_append [OF assms] rooted_def)
  have 3: "clean_elems rooted [] (split_slash (filepath_Clean x @ CHR ''/'' # n)) =
           clean_elems rooted [] (split_slash (x @ CHR ''/'' # n))"
    using k by (simp add: split_slash_append clean_elems_append o'_def)
  have u: "filepath_Clean p =
             (if rooted then CHR ''/'' # join_slash (clean_elems rooted [] (split_slash p))
              else if clean_elems rooted [] (split_slash p) = [] then ''.''
              else join_slash (clean_elems rooted [] (split_slash p)))"
    if "p \<noteq> []" "filepath_IsAbs p = rooted" for p
    using that by (simp add: filepath_Clean_def Let_def)
  have "filepath_Clean (filepath_Clean x @ CHR ''/'' # n) =
          (if rooted then CHR ''/'' # join_slash (clean_elems rooted [] (split_slash (x @ CHR ''/'' # n)))
           else if clean_elems rooted [] (split_slash (x @ CHR ''/'' # n)) = [] then ''.''
           else join_slash (clean_elems rooted [] (split_slash (x @ CHR ''/'' # n))))"
    using u [OF _ 1] by (simp only: 3) simp
  also have "\<dots> = filepath_Clean (x @ CHR ''/'' # n)"
    using u [OF _ 2] by simp
  finally show ?thesis .
qed

lemma filepath_Join_nested:
  assumes "c \<noteq> []"
  shows "filepath_Join [r, c, n] = filepath_Join [filepath_Join [r, c], n]"
proof (cases "r = []")
  case True
  have "filepath_Clean (filepath_Clean c @ CHR ''/'' # n) = filepath_Clean (c @ CHR ''/'' # n)"
    using assms by (rule Clean_Clean_append)
  with True assms show ?thesis by (simp add: filepath_Clean_nonempty)
next
  case False
  have "filepath_Clean (filepath_Clean (r @ CHR ''/'' # c) @ CHR ''/'' # n) =
        filepath_Clean ((r @ CHR ''/'' # c) @ CHR ''/'' # n)"
    by (rule Clean_Clean_append) simp
  with False show ?thesis by (simp add: filepath_Clean_nonempty)
qed

section \<open>Claims about category discovery\<close>

text \<open>
  Claim C6. The project root of the claim is the directory that holds the category
  directories of the project; in the source that is the directory \<open>.claude\<close> of
  \<open>a.projectRoot\<close>, the working directory. When the store root can be listed,
  \<open>loadCategories\<close> sets the categories to one record for each entry that is a
  directory and whose name does not start with a dot, with the global directory
  \<open>globalRoot/name\<close> and the project directory \<open>root/name\<close> for that root, sorted by
  name and without repetition. When the store root cannot be listed, the error is
  returned, and \<open>main\<close> prints it and exits. A start-up that goes through has the working
  directory as \<open>projectRoot\<close>, the store under the home directory as \<open>globalRoot\<close>,
  and at least one category.
\<close>

theorem category_discovery:
  "(\<forall>entries. os_ReadDir fs (globalRoot a) = Inr entries \<longrightarrow>
      (\<exists>cats. loadCategories a fs = Inr (a\<lparr>categories := cats\<rparr>) \<and>
         set cats =
           (\<lambda>e. \<lparr>cat_Name = entName e,
                  cat_GlobalDir = filepath_Join [globalRoot a, entName e],
                  cat_ProjectDir =
                    filepath_Join [filepath_Join [projectRoot a, ''.claude''], entName e]\<rparr>) `
             {e \<in> set entries. entIsDir e \<and> \<not> strings_HasPrefix (entName e) ''.''} \<and>
         distinct (map cat_Name cats) \<and>
         sorted (map cat_Name cats))) \<and>
   (\<forall>err. os_ReadDir fs (globalRoot a) = Inl err \<longrightarrow> loadCategories a fs = Inl err) \<and>
   (\<forall>h wd err. os_Getwd fs = Inr wd \<longrightarrow>
      os_ReadDir fs (filepath_Join [h, ''.config'', ''claude'']) = Inl err \<longrightarrow>
      main_startup (Some h) fs = Inl (''Error loading categories: '' @ error_text err @ newline)) \<and>
   (\<forall>h a'. main_startup (Some h) fs = Inr a' \<longrightarrow>
      os_Getwd fs = Inr (projectRoot a') \<and>
      globalRoot a' = filepath_Join [h, ''.config'', ''claude''] \<and>
      categories a' \<noteq> [])"
proof -
  have startup: "os_Getwd fs = Inr (projectRoot a') \<and>
      globalRoot a' = filepath_Join [h, ''.config'', ''claude''] \<and> categories a' \<noteq> []"
    if m: "main_startup (Some h) fs = Inr a'" for h a'
  proof -
    from m obtain wd where wd: "os_Getwd fs = Inr wd"
      by (cases "os_Getwd fs") (simp_all add: main_startup_def)
    define g where "g = filepath_Join [h, ''.config'', ''claude'']"
    define a0 where "a0 = \<lparr>categories = [], activeTabIdx = 0, availableItems = [],
                            appliedItems = [], projectRoot = wd, globalRoot = g,
                            currentPanelIdx = 0, availableList_current = 0,
                            appliedList_current = 0, statusBar = []\<rparr>"
    have ms: "main_startup (Some h) fs =
                (case loadCategories a0 fs of
                   Inl err \<Rightarrow> Inl (''Error loading categories: '' @ error_text err @ newline)
                 | Inr a1 \<Rightarrow>
                     if length (categories a1) = 0
                     then Inl (''No categories found in '' @ globalRoot a1 @ newline)
                     else Inr a1)"
      using wd by (simp add: main_startup_def Let_def a0_def g_def del: filepath_Join.simps)
    from m ms obtain a1 where a1: "loadCategories a0 fs = Inr a1"
      by (cases "loadCategories a0 fs") simp_all
    with m ms have c: "categories a1 \<noteq> []" and eq: "a' = a1"
      by (auto split: if_splits)
    from a1 have "projectRoot a1 = projectRoot a0" "globalRoot a1 = globalRoot a0"
      by (auto simp: loadCategories_def split: sum.splits)
    then have "projectRoot a1 = wd" "globalRoot a1 = g"
      by (simp_all add: a0_def)
    with wd c eq show ?thesis
      by (simp add: g_def del: filepath_Join.simps)
  qed
  show ?thesis
  proof (intro conjI allI impI)
    fix entries
    assume r: "os_ReadDir fs (globalRoot a) = Inr entries"
    let ?cats = "sort_key cat_Name (loadCategories_loop a entries [])"
    from r have 1: "loadCategories a fs = Inr (a\<lparr>categories := ?cats\<rparr>)"
      by (simp add: loadCategories_def)
    have n: "filepath_Join [projectRoot a, ''.claude'', nm] =
             filepath_Join [filepath_Join [projectRoot a, ''.claude''], nm]" for nm
      by (rule filepath_Join_nested) simp
    have 2: "set ?cats =
             (\<lambda>e. \<lparr>cat_Name = entName e,
                    cat_GlobalDir = filepath_Join [globalRoot a, entName e],
                    cat_ProjectDir =
                      filepath_Join [filepath_Join [projectRoot a, ''.claude''], entName e]\<rparr>) `
               {e \<in> set entries. entIsDir e \<and> \<not> strings_HasPrefix (entName e) ''.''}"
      by (simp only: set_sort loadCategories_loop_set n) simp
    from readdir_names [OF r] have "distinct (map entName entries)" by simp
    then have "distinct (map entName (filter entIsDir entries))"
      by (rule distinct_map_filter)
    then have 3: "distinct (map cat_Name ?cats)"
      by (simp add: distinct_map_sort_key loadCategories_loop_names)
    have 4: "sorted (map cat_Name ?cats)" by simp
    from 1 2 3 4 show "\<exists>cats. loadCategories a fs = Inr (a\<lparr>categories := cats\<rparr>) \<and>
           set cats =
             (\<lambda>e. \<lparr>cat_Name = entName e,
                    cat_GlobalDir = filepath_Join [globalRoot a, entName e],
                    cat_ProjectDir =
                      filepath_Join [filepath_Join [projectRoot a, ''.claude''], entName e]\<rparr>) `
               {e \<in> set entries. entIsDir e \<and> \<not> strings_HasPrefix (entName e) ''.''} \<and>
           distinct (map cat_Name cats) \<and>
           sorted (map cat_Name cats)"
      by blast
  next
    fix err
    assume "os_ReadDir fs (globalRoot a) = Inl err"
    then show "loadCategories a fs = Inl err" by (simp add: loadCategories_def)
  next
    fix h wd err
    assume "os_Getwd fs = Inr wd"
      and "os_ReadDir fs (filepath_Join [h, ''.config'', ''claude'']) = Inl err"
    then show "main_startup (Some h) fs = Inl (''Error loading categories: '' @ error_text err @ newline)"
      by (simp add: main_startup_def loadCategories_def Let_def del: filepath_Join.simps)
  next
    fix h a'
    assume "main_startup (Some h) fs = Inr a'"
    then show "os_Getwd fs = Inr (projectRoot a')" by (simp add: startup)
  next
    fix h a'
    assume "main_startup (Some h) fs = Inr a'"
    then show "globalRoot a' = filepath_Join [h, ''.config'', ''claude'']"
      using startup by blast
  next
    fix h a'
    assume "main_startup (Some h) fs = Inr a'"
    then show "categories a' \<noteq> []" using startup by blast
  qed
qed

text \<open>
  On the example disk the store \<open>/g\<close> has the one category \<open>agents\<close>, and its project
  directory \<open>/p/.claude/agents\<close> is the category name under \<open>/p/.claude\<close>; with the
  home directory \<open>/home/u\<close> the store root is missing and the start-up aborts.
\<close>

theorem category_discovery_witness:
  "os_ReadDir disk_demo (globalRoot app_init) = Inr [\<lparr>entName = ''agents'', entIsDir = True\<rparr>] \<and>
   loadCategories app_init disk_demo = Inr (app_init\<lparr>categories := [cat_agents]\<rparr>) \<and>
   filepath_Join [projectRoot app_init, ''.claude''] = ''/p/.claude'' \<and>
   cat_ProjectDir cat_agents = filepath_Join [''/p/.claude'', cat_Name cat_agents] \<and>
   os_Getwd disk_demo = Inr ''/p'' \<and>
   os_ReadDir disk_demo (filepath_Join [''/home/u'', ''.config'', ''claude'']) =
     Inl (PathError ''open'' ''/home/u/.config/claude'' ENOENT) \<and>
   main_startup (Some ''/home/u'') disk_demo =
     Inl (''Error loading categories: open /home/u/.config/claude: no such file or directory'' @ newline)"
proof -
  have r: "os_ReadDir disk_demo (globalRoot app_init) = Inr [\<lparr>entName = ''agents'', entIsDir = True\<rparr>]"
    by code_simp
  have g: "os_Getwd disk_demo = Inr ''/p''" by code_simp
  have e: "os_ReadDir disk_demo (filepath_Join [''/home/u'', ''.config'', ''claude'']) =
     Inl (PathError ''open'' ''/home/u/.config/claude'' ENOENT)"
    by code_simp
  have j: "filepath_Join [projectRoot app_init, ''.claude''] = ''/p/.claude''" by code_simp
  have pd: "cat_ProjectDir cat_agents = filepath_Join [''/p/.claude'', cat_Name cat_agents]"
    by code_simp
  have l: "loadCategories app_init disk_demo = Inr (app_init\<lparr>categories := [cat_agents]\<rparr>)"
    by code_simp
  from category_discovery [of disk_demo app_init] g e
  have "main_startup (Some ''/home/u'') disk_demo =
     Inl (''Error loading categories: '' @ error_text (PathError ''open'' ''/home/u/.config/claude'' ENOENT) @ newline)"
    by blast
  then have "main_startup (Some ''/home/u'') disk_demo =
     Inl (''Error loading categories: open /home/u/.config/claude: no such file or directory'' @ newline)"
    by simp
  with r g e l j pd show ?thesis by blast
qed

section \<open>Claims about apply and remove\<close>

text \<open>
  Claim C5, as the source has it. With a valid selection, an apply whose
  \<open>MkdirAll\<close> and \<open>Symlink\<close> both succeed is the refresh of the state on the new disk,
  and so is a remove whose \<open>Remove\<close> succeeds. When one of the three calls fails, the
  operation returns the state it was given with the error text in the status bar, on the
  disk the failed call left behind: no refresh takes place and both lists stay as they
  were.
\<close>

theorem mutation_refreshes_only_on_success:
  "(0 \<le> availableList_current a \<and> availableList_current a < int (length (availableItems a)) \<and>
    index_at (categories a) (activeTabIdx a) = Inr cat \<and>
    item = availableItems a ! nat (availableList_current a) \<longrightarrow>
      (\<forall>fs1 fs2. os_MkdirAll fs (cat_ProjectDir cat) = (None, fs1) \<longrightarrow>
         os_Symlink fs1 (item_GlobalPath item)
           (filepath_Join [cat_ProjectDir cat, item_Name item]) = Inr fs2 \<longrightarrow>
         applySelected a fs = refreshAll a fs2) \<and>
      (\<forall>fs1 err. os_MkdirAll fs (cat_ProjectDir cat) = (None, fs1) \<longrightarrow>
         os_Symlink fs1 (item_GlobalPath item)
           (filepath_Join [cat_ProjectDir cat, item_Name item]) = Inl err \<longrightarrow>
         applySelected a fs = Inr (a\<lparr>statusBar := '' [red]Error:[-] '' @ error_text err\<rparr>, fs1)) \<and>
      (\<forall>fs1 err. os_MkdirAll fs (cat_ProjectDir cat) = (Some err, fs1) \<longrightarrow>
         applySelected a fs = Inr (a\<lparr>statusBar := '' [red]Error:[-] '' @ error_text err\<rparr>, fs1))) \<and>
   (0 \<le> appliedList_current a \<and> appliedList_current a < int (length (appliedItems a)) \<and>
    index_at (categories a) (activeTabIdx a) = Inr cat \<and>
    item = appliedItems a ! nat (appliedList_current a) \<longrightarrow>
      (\<forall>fs1. os_Remove fs (filepath_Join [cat_ProjectDir cat, item_Name item]) = Inr fs1 \<longrightarrow>
         removeSelected a fs = refreshAll a fs1) \<and>
      (\<forall>err. os_Remove fs (filepath_Join [cat_ProjectDir cat, item_Name item]) = Inl err \<longrightarrow>
         removeSelected a fs = Inr (a\<lparr>statusBar := '' [red]Error:[-] '' @ error_text err\<rparr>, fs)))"
proof (intro conjI impI allI; (elim conjE)?)
  fix fs1 fs2
  assume "0 \<le> availableList_current a" "availableList_current a < int (length (availableItems a))"
    "index_at (categories a) (activeTabIdx a) = Inr cat"
    "item = availableItems a ! nat (availableList_current a)"
    "os_MkdirAll fs (cat_ProjectDir cat) = (None, fs1)"
    "os_Symlink fs1 (item_GlobalPath item) (filepath_Join [cat_ProjectDir cat, item_Name item]) = Inr fs2"
  then show "applySelected a fs = refreshAll a fs2"
    by (simp add: applySelected_def index_at_def Let_def del: filepath_Join.simps)
next
  fix fs1 err
  assume "0 \<le> availableList_current a" "availableList_current a < int (length (availableItems a))"
    "index_at (categories a) (activeTabIdx a) = Inr cat"
    "item = availableItems a ! nat (availableList_current a)"
    "os_MkdirAll fs (cat_ProjectDir cat) = (None, fs1)"
    "os_Symlink fs1 (item_GlobalPath item) (filepath_Join [cat_ProjectDir cat, item_Name item]) = Inl err"
  then show "applySelected a fs = Inr (a\<lparr>statusBar := '' [red]Error:[-] '' @ error_text err\<rparr>, fs1)"
    by (simp add: applySelected_def index_at_def Let_def del: filepath_Join.simps)
next
  fix fs1 err
  assume "0 \<le> availableList_current a" "availableList_current a < int (length (availableItems a))"
    "index_at (categories a) (activeTabIdx a) = Inr cat"
    "item = availableItems a ! nat (availableList_current a)"
    "os_MkdirAll fs (cat_ProjectDir cat) = (Some err, fs1)"
  then show "applySelected a fs = Inr (a\<lparr>statusBar := '' [red]Error:[-] '' @ error_text err\<rparr>, fs1)"
    by (simp add: applySelected_def index_at_def Let_def del: filepath_Join.simps)
next
  fix fs1
  assume "0 \<le> appliedList_current a" "appliedList_current a < int (length (appliedItems a))"
    "index_at (categories a) (activeTabIdx a) = Inr cat"
    "item = appliedItems a ! nat (appliedList_current a)"
    "os_Remove fs (filepath_Join [cat_ProjectDir cat, item_Name item]) = Inr fs1"
  then show "removeSelected a fs = refreshAll a fs1"
    by (simp add: removeSelected_def index_at_def Let_def del: filepath_Join.simps)
next
  fix err
  assume "0 \<le> appliedList_current a" "appliedList_current a < int (length (appliedItems a))"
    "index_at (categories a) (activeTabIdx a) = Inr cat"
    "item = appliedItems a ! nat (appliedList_current a)"
    "os_Remove fs (filepath_Join [cat_ProjectDir cat, item_Name item]) = Inl err"
  then show "removeSelected a fs = Inr (a\<lparr>statusBar := '' [red]Error:[-] '' @ error_text err\<rparr>, fs)"
    by (simp add: removeSelected_def index_at_def Let_def del: filepath_Join.simps)
qed

text \<open>
  On the example disks: applying \<open>d.md\<close> where its project path is free succeeds and
  refreshes, applying \<open>c.md\<close> fails because a link is in the way, and removing
  \<open>a.md\<close> succeeds and refreshes.
\<close>

theorem mutation_refreshes_only_on_success_witness:
  "applySelected (app_loaded\<lparr>availableList_current := 1\<rparr>) disk_free =
     refreshAll (app_loaded\<lparr>availableList_current := 1\<rparr>)
       (add_node disk_free [''p'', ''.claude'', ''agents'', ''d.md''] (SymlinkNode ''/g/agents/d.md'')) \<and>
   applySelected app_loaded disk_changed =
     Inr (app_loaded\<lparr>statusBar := '' [red]Error:[-] '' @
            error_text (LinkError ''symlink'' ''/g/agents/c.md'' ''/p/.claude/agents/c.md'' EEXIST)\<rparr>,
          disk_changed) \<and>
   removeSelected app_loaded disk_demo =
     refreshAll app_loaded (delete_node disk_demo [''p'', ''.claude'', ''agents'', ''a.md''])"
proof -
  let ?a1 = "app_loaded\<lparr>availableList_current := 1\<rparr>"
  have i1: "0 \<le> availableList_current ?a1 \<and>
            availableList_current ?a1 < int (length (availableItems ?a1)) \<and>
            index_at (categories ?a1) (activeTabIdx ?a1) = Inr cat_agents \<and>
            item_d = availableItems ?a1 ! nat (availableList_current ?a1)"
    by code_simp
  have m1: "os_MkdirAll disk_free (cat_ProjectDir cat_agents) = (None, disk_free)"
    by code_simp
  have s1: "os_Symlink disk_free (item_GlobalPath item_d)
              (filepath_Join [cat_ProjectDir cat_agents, item_Name item_d]) =
            Inr (add_node disk_free [''p'', ''.claude'', ''agents'', ''d.md'']
                   (SymlinkNode ''/g/agents/d.md''))"
    by code_simp
  have i2: "0 \<le> availableList_current app_loaded \<and>
            availableList_current app_loaded < int (length (availableItems app_loaded)) \<and>
            index_at (categories app_loaded) (activeTabIdx app_loaded) = Inr cat_agents \<and>
            item_c = availableItems app_loaded ! nat (availableList_current app_loaded)"
    by code_simp
  have m2: "os_MkdirAll disk_changed (cat_ProjectDir cat_agents) = (None, disk_changed)"
    by code_simp
  have s2: "os_Symlink disk_changed (item_GlobalPath item_c)
              (filepath_Join [cat_ProjectDir cat_agents, item_Name item_c]) =
            Inl (LinkError ''symlink'' ''/g/agents/c.md'' ''/p/.claude/agents/c.md'' EEXIST)"
    by code_simp
  have i3: "0 \<le> appliedList_current app_loaded \<and>
            appliedList_current app_loaded < int (length (appliedItems app_loaded)) \<and>
            index_at (categories app_loaded) (activeTabIdx app_loaded) = Inr cat_agents \<and>
            item_a = appliedItems app_loaded ! nat (appliedList_current app_loaded)"
    by code_simp
  have r3: "os_Remove disk_demo (filepath_Join [cat_ProjectDir cat_agents, item_Name item_a]) =
            Inr (delete_node disk_demo [''p'', ''.claude'', ''agents'', ''a.md''])"
    by code_simp
  from mutation_refreshes_only_on_success
         [where a = ?a1 and cat = cat_agents and item = item_d and fs = disk_free] i1 m1 s1
  have A: "applySelected ?a1 disk_free =
     refreshAll ?a1
       (add_node disk_free [''p'', ''.claude'', ''agents'', ''d.md''] (SymlinkNode ''/g/agents/d.md''))"
    by blast
  from mutation_refreshes_only_on_success
         [where a = app_loaded and cat = cat_agents and item = item_c and fs = disk_changed] i2 m2 s2
  have B: "applySelected app_loaded disk_changed =
     Inr (app_loaded\<lparr>statusBar := '' [red]Error:[-] '' @
            error_text (LinkError ''symlink'' ''/g/agents/c.md'' ''/p/.claude/agents/c.md'' EEXIST)\<rparr>,
          disk_changed)"
    by blast
  from mutation_refreshes_only_on_success
         [where a = app_loaded and cat = cat_agents and item = item_a and fs = disk_demo] i3 r3
  have C: "removeSelected app_loaded disk_demo =
     refreshAll app_loaded (delete_node disk_demo [''p'', ''.claude'', ''agents'', ''a.md''])"
    by blast
  from A B C show ?thesis by blast
qed

text \<open>
  Claim C5 as stated promises a refresh after a failed mutation as well. Here the lists
  were loaded before \<open>d.md\<close> left the store. The apply of \<open>c.md\<close> fails, and the state it
  returns still lists \<open>d.md\<close>, which a refresh from this disk would not; a failed
  remove leaves the lists alone in the same way.
\<close>

theorem failed_apply_skips_refresh_counterexample:
  "applySelected app_loaded disk_changed =
     Inr (app_loaded\<lparr>statusBar :=
            '' [red]Error:[-] symlink /g/agents/c.md /p/.claude/agents/c.md: file exists''\<rparr>,
          disk_changed) \<and>
   availableItems app_loaded = [item_c, item_d] \<and>
   refreshAll app_loaded disk_changed = Inr (app_loaded\<lparr>availableItems := [item_c]\<rparr>, disk_changed) \<and>
   [item_c, item_d] \<noteq> [item_c] \<and>
   removeSelected app_loaded (disk_changed\<lparr>nowrite := [[''p'', ''.claude'', ''agents'']]\<rparr>) =
     Inr (app_loaded\<lparr>statusBar :=
            '' [red]Error:[-] remove /p/.claude/agents/a.md: permission denied''\<rparr>,
          disk_changed\<lparr>nowrite := [[''p'', ''.claude'', ''agents'']]\<rparr>)"
  by code_simp

section \<open>The tree renderer on two directories\<close>

text \<open>
  Claim C8 at a directory nested five levels deep. The rendering lists \<open>l1\<close>,
  \<open>l2\<close>, \<open>l3\<close> and \<open>l4\<close>, four levels below the root, and the truncation marker
  comes at the fifth level, in the place of the content of \<open>l4\<close>: the guard of
  \<open>buildTree\<close> is \<open>depth > 3\<close>, so the call at depth 3 still lists its directory.
\<close>

theorem tree_depth_five_levels:
  "buildTree disk_deep ''/t'' [] 0 =
     connector_elbow @ ''[cyan]l1/[-]'' @ newline @
     prefix_blank @ connector_elbow @ ''[cyan]l2/[-]'' @ newline @
     prefix_blank @ prefix_blank @ connector_elbow @ ''[cyan]l3/[-]'' @ newline @
     prefix_blank @ prefix_blank @ prefix_blank @ connector_elbow @ ''[cyan]l4/[-]'' @ newline @
     prefix_blank @ prefix_blank @ prefix_blank @ prefix_blank @ truncation_marker @ newline"
  by code_simp

text \<open>
  Claim C9 at a directory whose listing is \<open>+page.md\<close>, \<open>.gitignore\<close>. The hidden
  entry is left out, but it is the last of the listing, and \<open>isLast\<close> compares the index
  with the length of the whole listing: the only rendered entry carries the connector
  of an earlier sibling, and no entry carries the one of the last sibling.
\<close>

theorem tree_hidden_last_entry:
  "os_ReadDir disk_hidden_last ''/t'' =
     Inr [\<lparr>entName = ''+page.md'', entIsDir = False\<rparr>, \<lparr>entName = ''.gitignore'', entIsDir = False\<rparr>] \<and>
   buildTree disk_hidden_last ''/t'' [] 0 = connector_tee @ ''+page.md'' @ newline"
  by code_simp

end
